theory Spec2Isabelle
  imports Main
begin

section \<open>SQLAir: a CSV table store with SQL-like queries\<close>

text \<open>
  The development follows \<^verbatim>\<open>src/SQLAir.cpp\<close>.  Every C++ function is a HOL function
  of the same name.  What the C++ code keeps in objects (the output stream, the
  table, the table cache, the files on disk, the ownership of a mutex) is passed in
  and handed back explicitly.  Exceptions and undefined behaviour are outcomes of
  their own, so that a function which throws half-way still shows what it had
  written up to that point.
\<close>

subsection \<open>Outcomes\<close>

text \<open>
  \<open>Exp\<close> is the exception class of the program (its argument is \<open>what()\<close>),
  \<open>OutOfRange\<close> is \<^verbatim>\<open>std::out_of_range\<close> as thrown by \<^verbatim>\<open>at()\<close> of a vector or a map,
  \<open>LookupError\<close> is the failure of a column-name lookup.
\<close>

datatype error = Exp string | OutOfRange | LookupError string

text \<open>
  The places where the C++ code has undefined behaviour:
  \<^verbatim>\<open>colNames[0]\<close> on an empty vector, \<^verbatim>\<open>values[i]\<close> past the end,
  \<^verbatim>\<open>row[k]\<close> past the end, and locking a \<^verbatim>\<open>std::mutex\<close> that the calling thread
  already owns.
\<close>

datatype ub = EmptyColNames | ValuesIndex | RowIndex | Relock

text \<open>
  A call either returns (\<open>Done\<close>), throws (\<open>Raised\<close>, with the state at the
  throw), runs into undefined behaviour, or stays blocked on a condition variable
  for good (\<open>Blocked\<close>).
\<close>

datatype 's outcome = Done 's | Raised error 's | Undefined ub | Blocked 's

subsection \<open>Tables\<close>

type_synonym CSVRow = "string list"

record CSV =
  columnNames :: "string list"
  csvRows :: "CSVRow list"

definition getColumnNames :: "CSV \<Rightarrow> string list" where
  "getColumnNames csv = columnNames csv"

text \<open>
  Modelled from the spec: \<^verbatim>\<open>CSV::getColumnIndex\<close> belongs to the class \<^verbatim>\<open>CSV\<close>, which
  is not part of \<^verbatim>\<open>src/\<close>.  The lookup is by exact, case-sensitive string match
  against the table's column list (\<open>indexOf\<close> is that search); an unknown name is a
  lookup error.
\<close>

fun indexOf :: "string list \<Rightarrow> string \<Rightarrow> nat option" where
  "indexOf [] name = None"
| "indexOf (c # cs) name =
     (if c = name then Some 0
      else (case indexOf cs name of None \<Rightarrow> None | Some k \<Rightarrow> Some (Suc k)))"

definition getColumnIndex :: "CSV \<Rightarrow> string \<Rightarrow> error + nat" where
  "getColumnIndex csv name =
     (case indexOf (columnNames csv) name of
        None \<Rightarrow> Inl (LookupError name)
      | Some k \<Rightarrow> Inr k)"

text \<open>\<^verbatim>\<open>row.at(idx)\<close> with an \<^verbatim>\<open>int\<close> index: a negative index converts to a huge
  \<^verbatim>\<open>size_t\<close> and is out of range like any index past the end.\<close>

definition at_row :: "CSVRow \<Rightarrow> int \<Rightarrow> error + string" where
  "at_row row idx =
     (if 0 \<le> idx \<and> nat idx < length row then Inr (row ! nat idx) else Inl OutOfRange)"

subsection \<open>Text written to a stream\<close>

definition LF :: char where
  "LF = CHR 0x0A"

definition CR :: char where
  "CR = CHR 0x0D"

definition TAB :: char where
  "TAB = CHR 0x09"

definition endl :: string where
  "endl = [LF]"

definition digit :: "nat \<Rightarrow> char" where
  "digit d = ''0123456789'' ! d"

text \<open>\<^verbatim>\<open>os << n\<close> for a non-negative integer: its decimal digits.\<close>

fun decimal :: "nat \<Rightarrow> string" where
  "decimal n = (if n < 10 then [digit n] else decimal (n div 10) @ [digit (n mod 10)])"

declare decimal.simps [simp del]

subsection \<open>insert and delete (lines 121-130)\<close>

text \<open>Both bodies are a single \<^verbatim>\<open>throw\<close>.  The state is the table and the stream.\<close>

definition insertQuery ::
  "CSV \<Rightarrow> bool \<Rightarrow> string list \<Rightarrow> string list \<Rightarrow> string \<Rightarrow> (CSV \<times> string) outcome" where
  "insertQuery csv mustWait colNames values os =
     Raised (Exp ''insert is not yet implemented.'') (csv, os)"

definition deleteQuery ::
  "CSV \<Rightarrow> bool \<Rightarrow> int \<Rightarrow> string \<Rightarrow> string \<Rightarrow> string \<Rightarrow> (CSV \<times> string) outcome" where
  "deleteQuery csv mustWait whereColIdx cond val os =
     Raised (Exp ''delete is not yet implemented.'') (csv, os)"

subsection \<open>select (lines 44-87)\<close>

text \<open>
  Two helpers of the program are not part of \<^verbatim>\<open>src/\<close> and are parameters here:
  \<open>matches\<close> is \<^verbatim>\<open>SQLAirBase::matches(field, cond, value)\<close> (it may throw), and
  \<open>showVec\<close> is the text that \<^verbatim>\<open>os << colNames\<close> writes for a vector of strings.
\<close>

text \<open>The loop of \<^verbatim>\<open>display\<close> (lines 49-53).  In \<^verbatim>\<open>os << delim << row.at(...)\<close> the
  delimiter is written before the value is looked up, so it is already on the
  stream when the lookup throws.\<close>

fun displayCols :: "CSV \<Rightarrow> CSVRow \<Rightarrow> string list \<Rightarrow> string \<Rightarrow> string \<Rightarrow> string outcome" where
  "displayCols csv row [] delim os = Done os"
| "displayCols csv row (colName # rest) delim os =
     (case getColumnIndex csv colName of
        Inl e \<Rightarrow> Raised e (os @ delim)
      | Inr k \<Rightarrow>
          (case at_row row (int k) of
             Inl e \<Rightarrow> Raised e (os @ delim)
           | Inr v \<Rightarrow> displayCols csv row rest [TAB] (os @ delim @ v)))"

definition display ::
  "(string list \<Rightarrow> string) \<Rightarrow> CSVRow \<Rightarrow> string list \<Rightarrow> CSV \<Rightarrow> string \<Rightarrow> nat \<Rightarrow> string outcome" where
  "display showVec row colNames csv os numRows =
     (let os1 = (if numRows = 1 then os @ showVec colNames @ endl else os) in
      case displayCols csv row colNames [] os1 of
        Done os2 \<Rightarrow> Done (os2 @ endl)
      | Raised e os2 \<Rightarrow> Raised e os2
      | Undefined u \<Rightarrow> Undefined u
      | Blocked os2 \<Rightarrow> Blocked os2)"

text \<open>Lines 71-72: the test that decides whether a row is chosen.\<close>

definition rowChosen ::
  "(string \<Rightarrow> string \<Rightarrow> string \<Rightarrow> error + bool) \<Rightarrow> int \<Rightarrow> string \<Rightarrow> string \<Rightarrow> CSVRow \<Rightarrow> error + bool" where
  "rowChosen matches whereColIdx cond val row =
     (if whereColIdx = - 1 then Inr True
      else (case at_row row whereColIdx of
              Inl e \<Rightarrow> Inl e
            | Inr field \<Rightarrow> matches field cond val))"

text \<open>The loop over the rows (lines 67-78); \<open>numRows\<close> counts the rows chosen so far.\<close>

fun selectRows ::
  "(string \<Rightarrow> string \<Rightarrow> string \<Rightarrow> error + bool) \<Rightarrow> (string list \<Rightarrow> string) \<Rightarrow> CSV \<Rightarrow> string list
   \<Rightarrow> int \<Rightarrow> string \<Rightarrow> string \<Rightarrow> CSVRow list \<Rightarrow> nat \<Rightarrow> string \<Rightarrow> (nat \<times> string) outcome" where
  "selectRows matches showVec csv colNames whereColIdx cond val [] numRows os =
     Done (numRows, os)"
| "selectRows matches showVec csv colNames whereColIdx cond val (row # rest) numRows os =
     (case rowChosen matches whereColIdx cond val row of
        Inl e \<Rightarrow> Raised e (numRows, os)
      | Inr False \<Rightarrow>
          selectRows matches showVec csv colNames whereColIdx cond val rest numRows os
      | Inr True \<Rightarrow>
          (case display showVec row colNames csv os (Suc numRows) of
             Done os' \<Rightarrow>
               selectRows matches showVec csv colNames whereColIdx cond val rest (Suc numRows) os'
           | Raised e os' \<Rightarrow> Raised e (Suc numRows, os')
           | Undefined u \<Rightarrow> Undefined u
           | Blocked os' \<Rightarrow> Blocked (Suc numRows, os')))"

text \<open>
  \<open>selectQuery\<close>.  The table is shared with other threads: \<open>csv\<close> is what it holds
  during this pass and \<open>wakeups\<close> is what it holds each time the wait on the table's
  condition variable returns later on; with no wakeup left the call stays blocked.
  \<open>owned\<close> says whether the calling thread owns \<^verbatim>\<open>csv.csvMutex\<close>: it does not when
  the query starts, and it does in the call of line 83, which is made while the
  \<^verbatim>\<open>unique_lock\<close> of line 80 is alive (the wait returns with the mutex locked).
  Line 80 in that inner call locks a mutex its own thread owns.
\<close>

fun selectQuery ::
  "(string \<Rightarrow> string \<Rightarrow> string \<Rightarrow> error + bool) \<Rightarrow> (string list \<Rightarrow> string) \<Rightarrow> CSV \<Rightarrow> CSV list
   \<Rightarrow> bool \<Rightarrow> bool \<Rightarrow> string list \<Rightarrow> int \<Rightarrow> string \<Rightarrow> string \<Rightarrow> string \<Rightarrow> string outcome" where
  "selectQuery matches showVec csv wakeups owned mustWait colNames whereColIdx cond val os =
     (case colNames of
        [] \<Rightarrow> Undefined EmptyColNames
      | first # _ \<Rightarrow>
          (case selectRows matches showVec csv
                  (if first = ''*'' then getColumnNames csv else colNames)
                  whereColIdx cond val (csvRows csv) 0 os of
             Done (numRows, os') \<Rightarrow>
               if mustWait \<and> numRows = 0 then
                 (if owned then Undefined Relock
                  else (case wakeups of
                          [] \<Rightarrow> Blocked os'
                        | csv' # later \<Rightarrow>
                            selectQuery matches showVec csv' later True mustWait
                              (if first = ''*'' then getColumnNames csv else colNames)
                              whereColIdx cond val os'))
               else Done (os' @ decimal numRows @ '' row(s) selected.'' @ endl)
           | Raised e (numRows, os') \<Rightarrow> Raised e os'
           | Undefined u \<Rightarrow> Undefined u
           | Blocked (numRows, os') \<Rightarrow> Blocked os'))"

declare selectQuery.simps [simp del]

subsection \<open>update (lines 89-119)\<close>

text \<open>
  The inner loop (lines 101-103).  In \<^verbatim>\<open>row[csv.getColumnIndex(colNames[i])] = values[i]\<close>
  the right-hand side is evaluated first; neither \<^verbatim>\<open>values[i]\<close> nor \<^verbatim>\<open>row[k]\<close> checks
  its index.
\<close>

function setValues :: "CSV \<Rightarrow> string list \<Rightarrow> string list \<Rightarrow> nat \<Rightarrow> CSVRow \<Rightarrow> CSVRow outcome" where
  "setValues csv colNames values i row =
     (if i < length colNames then
        (if length values \<le> i then Undefined ValuesIndex
         else (case getColumnIndex csv (colNames ! i) of
                 Inl e \<Rightarrow> Raised e row
               | Inr k \<Rightarrow>
                   if length row \<le> k then Undefined RowIndex
                   else setValues csv colNames values (Suc i) (row[k := values ! i])))
      else Done row)"
  by pat_completeness auto
termination
  by (relation "measure (\<lambda>(csv, colNames, values, i, row). length colNames - i)") auto

declare setValues.simps [simp del]

fun keepRow :: "CSVRow \<Rightarrow> (CSVRow list \<times> nat) outcome \<Rightarrow> (CSVRow list \<times> nat) outcome" where
  "keepRow row (Done (rest, n)) = Done (row # rest, n)"
| "keepRow row (Raised e (rest, n)) = Raised e (row # rest, n)"
| "keepRow row (Undefined u) = Undefined u"
| "keepRow row (Blocked (rest, n)) = Blocked (row # rest, n)"

text \<open>The loop over the rows (lines 95-105).  The result holds all rows of the
  table, the ones already passed with their new values.\<close>

fun updateRows ::
  "(string \<Rightarrow> string \<Rightarrow> string \<Rightarrow> error + bool) \<Rightarrow> CSV \<Rightarrow> string list \<Rightarrow> string list
   \<Rightarrow> int \<Rightarrow> string \<Rightarrow> string \<Rightarrow> CSVRow list \<Rightarrow> nat \<Rightarrow> (CSVRow list \<times> nat) outcome" where
  "updateRows matches csv colNames values whereColIdx cond val [] numRows = Done ([], numRows)"
| "updateRows matches csv colNames values whereColIdx cond val (row # rest) numRows =
     (case rowChosen matches whereColIdx cond val row of
        Inl e \<Rightarrow> Raised e (row # rest, numRows)
      | Inr False \<Rightarrow>
          keepRow row (updateRows matches csv colNames values whereColIdx cond val rest numRows)
      | Inr True \<Rightarrow>
          (case setValues csv colNames values 0 row of
             Done row' \<Rightarrow>
               keepRow row'
                 (updateRows matches csv colNames values whereColIdx cond val rest (Suc numRows))
           | Raised e row' \<Rightarrow> Raised e (row' # rest, Suc numRows)
           | Undefined u \<Rightarrow> Undefined u
           | Blocked row' \<Rightarrow> Blocked (row' # rest, Suc numRows)))"

text \<open>
  \<open>updateQuery\<close>, with \<open>wakeups\<close> and \<open>owned\<close> as for \<open>selectQuery\<close>.  The state is
  the table, the stream, and whether \<^verbatim>\<open>csvCondVar.notify_all()\<close> was called.
\<close>

fun updateQuery ::
  "(string \<Rightarrow> string \<Rightarrow> string \<Rightarrow> error + bool) \<Rightarrow> CSV \<Rightarrow> CSV list \<Rightarrow> bool \<Rightarrow> bool
   \<Rightarrow> string list \<Rightarrow> string list \<Rightarrow> int \<Rightarrow> string \<Rightarrow> string \<Rightarrow> string
   \<Rightarrow> (CSV \<times> string \<times> bool) outcome" where
  "updateQuery matches csv wakeups owned mustWait colNames values whereColIdx cond val os =
     (case updateRows matches csv colNames values whereColIdx cond val (csvRows csv) 0 of
        Done (rows', numRows) \<Rightarrow>
          if mustWait \<and> numRows = 0 then
            (if owned then Undefined Relock
             else (case wakeups of
                     [] \<Rightarrow> Blocked (csv\<lparr>csvRows := rows'\<rparr>, os, False)
                   | csv' # later \<Rightarrow>
                       updateQuery matches csv' later True mustWait colNames values
                         whereColIdx cond val os))
          else Done (csv\<lparr>csvRows := rows'\<rparr>,
                     os @ decimal numRows @ '' row(s) updated.'' @ endl,
                     0 < numRows)
      | Raised e (rows', numRows) \<Rightarrow> Raised e (csv\<lparr>csvRows := rows'\<rparr>, os, False)
      | Undefined u \<Rightarrow> Undefined u
      | Blocked (rows', numRows) \<Rightarrow> Blocked (csv\<lparr>csvRows := rows'\<rparr>, os, False))"

declare updateQuery.simps [simp del]

subsection \<open>The table cache (lines 231-283)\<close>

text \<open>\<^verbatim>\<open>s.find(p) == 0\<close>: the string starts with \<open>p\<close>.\<close>

definition starts_with :: "string \<Rightarrow> string \<Rightarrow> bool" where
  "starts_with p s = (take (length p) s = p)"

record SQLAir =
  inMemoryCSV :: "string \<rightharpoonup> CSV"
  recentCSV :: string

text \<open>
  \<open>loadAndGet\<close>.  Reading a table is done by code outside \<^verbatim>\<open>src/\<close>
  (\<^verbatim>\<open>Helper::breakDownURL\<close>, the download, \<^verbatim>\<open>CSV::load\<close>); it is a parameter for
  each of the two branches: \<open>download\<close> stands for lines 251-255 and \<open>loadFile\<close> for
  lines 258-260, each giving the table or the exception thrown.  The result is the
  object's new state and the table returned or the exception that leaves the call.
\<close>

definition loadAndGet ::
  "(string \<Rightarrow> error + CSV) \<Rightarrow> (string \<Rightarrow> error + CSV) \<Rightarrow> string \<Rightarrow> SQLAir
   \<Rightarrow> SQLAir \<times> (error + CSV)" where
  "loadAndGet download loadFile fileOrURL air =
     (let name = (if fileOrURL = [] then recentCSV air else fileOrURL);
          air1 = air\<lparr>recentCSV := name\<rparr>
      in case inMemoryCSV air1 name of
           Some csv \<Rightarrow> (air1, Inr csv)
         | None \<Rightarrow>
             (case (if starts_with ''http://'' name then download name else loadFile name) of
                Inl e \<Rightarrow> (air1, Inl e)
              | Inr csv \<Rightarrow> (air1\<lparr>inMemoryCSV := (inMemoryCSV air1)(name \<mapsto> csv)\<rparr>, Inr csv)))"

text \<open>
  \<open>saveQuery\<close>.  The files on disk are a map from path to contents.  The
  \<^verbatim>\<open>ofstream\<close> of line 280 need not open (a directory that does not exist, a file
  that may not be written): \<open>opens\<close> says for which paths it does.  The code does
  not test the stream.  A stream that opens creates the file or empties it, and
  the disk is taken to accept what is written to it; a stream that did not open
  stays failed, and what is written to it goes nowhere.  \<open>save\<close> is \<^verbatim>\<open>CSV::save\<close>,
  outside \<^verbatim>\<open>src/\<close>: told whether the stream it is handed is good, it gives the text
  it writes and the exception it throws, if it does.
\<close>

definition saveQuery ::
  "(string \<Rightarrow> bool) \<Rightarrow> (bool \<Rightarrow> CSV \<Rightarrow> string \<times> error option) \<Rightarrow> SQLAir
   \<Rightarrow> (string \<rightharpoonup> string) \<Rightarrow> string \<Rightarrow> ((string \<rightharpoonup> string) \<times> string) outcome" where
  "saveQuery opens save air files os =
     (if recentCSV air = [] \<or> starts_with ''http://'' (recentCSV air) then
        Raised (Exp ''Saving CSV to an URL using POST is not implemented'') (files, os)
      else
        (let isOpen = opens (recentCSV air);
             onDisk = (\<lambda>contents. if isOpen then files(recentCSV air \<mapsto> contents) else files)
         in case inMemoryCSV air (recentCSV air) of
              None \<Rightarrow> Raised OutOfRange (onDisk [], os)
            | Some csv \<Rightarrow>
                (case save isOpen csv of
                   (contents, Some e) \<Rightarrow> Raised e (onDisk contents, os)
                 | (contents, None) \<Rightarrow>
                     Done (onDisk contents, os @ recentCSV air @ '' saved.'' @ endl))))"

subsection \<open>A worker (lines 133-158)\<close>

definition HTTPRespHeader :: string where
  "HTTPRespHeader =
     ''HTTP/1.1 200 OK'' @ [CR, LF] @
     ''Server: localhost'' @ [CR, LF] @
     ''Connection: Close'' @ [CR, LF] @
     ''Content-Type: text/plain'' @ [CR, LF] @
     ''Content-Length: ''"

text \<open>
  The stream to the client is one \<^verbatim>\<open>iostream\<close>, read and written by the worker:
  \<open>unread\<close> are the bytes the client has sent and the worker has not read yet,
  \<open>peerClosed\<close> says whether the client has closed its side after them (otherwise a
  read that needs more bytes waits for them), \<open>eofbit\<close> and \<open>failbit\<close> are the state
  flags of the stream, \<open>sent\<close> is what the worker has written.  Reads and writes
  are taken not to fail for reasons of the network.
\<close>

record iostream =
  unread :: string
  peerClosed :: bool
  eofbit :: bool
  failbit :: bool
  sent :: string

definition good :: "iostream \<Rightarrow> bool" where
  "good s = (\<not> eofbit s \<and> \<not> failbit s)"

definition isspace :: "char \<Rightarrow> bool" where
  "isspace c = (c = CHR '' '' \<or> c = TAB \<or> c = LF \<or> c = CHR 0x0B \<or> c = CHR 0x0C \<or> c = CR)"

text \<open>
  \<^verbatim>\<open>stream >> str\<close>: on a stream that is not good it sets \<open>failbit\<close> and leaves
  \<open>str\<close> alone; otherwise it skips white space and reads up to the next white
  space, which stays unread.  Meeting the end of the input sets \<open>eofbit\<close>, and
  \<open>failbit\<close> too when no character was read.  The result is \<open>None\<close> when the read
  waits for bytes that never come.
\<close>

definition readWord :: "iostream \<Rightarrow> string \<Rightarrow> (iostream \<times> string) option" where
  "readWord s str =
     (if \<not> good s then Some (s\<lparr>failbit := True\<rparr>, str)
      else
        (let rest = dropWhile isspace (unread s) in
         if rest = [] then
           (if peerClosed s then Some (s\<lparr>unread := [], eofbit := True, failbit := True\<rparr>, str)
            else None)
         else if dropWhile (\<lambda>c. \<not> isspace c) rest = [] then
           (if peerClosed s then Some (s\<lparr>unread := [], eofbit := True\<rparr>, rest) else None)
         else Some (s\<lparr>unread := dropWhile (\<lambda>c. \<not> isspace c) rest\<rparr>,
                    takeWhile (\<lambda>c. \<not> isspace c) rest)))"

text \<open>
  \<^verbatim>\<open>getline(stream, str)\<close>: on a stream that is not good it sets \<open>failbit\<close> and
  leaves \<open>str\<close> alone; otherwise it reads up to the next line feed, which it
  takes from the stream and does not store.  Meeting the end of the input sets
  \<open>eofbit\<close>, and \<open>failbit\<close> too when no character was read.
\<close>

definition getline :: "iostream \<Rightarrow> string \<Rightarrow> (iostream \<times> string) option" where
  "getline s str =
     (if \<not> good s then Some (s\<lparr>failbit := True\<rparr>, str)
      else if LF \<in> set (unread s) then
        Some (s\<lparr>unread := tl (dropWhile (\<lambda>c. c \<noteq> LF) (unread s))\<rparr>,
              takeWhile (\<lambda>c. c \<noteq> LF) (unread s))
      else if peerClosed s then
        Some (s\<lparr>unread := [], eofbit := True, failbit := (unread s = [])\<rparr>, unread s)
      else None)"

text \<open>\<^verbatim>\<open>stream << text\<close>: a stream that is not good takes nothing and has \<open>failbit\<close>
  set.\<close>

definition put :: "iostream \<Rightarrow> string \<Rightarrow> iostream" where
  "put s txt = (if good s then s\<lparr>sent := sent s @ txt\<rparr> else s\<lparr>failbit := True\<rparr>)"

text \<open>The loop of lines 139-140: it reads lines while the read succeeds and the
  line is neither empty nor a lone carriage return.\<close>

function skipHeaders :: "iostream \<Rightarrow> string \<Rightarrow> (iostream \<times> string) option" where
  "skipHeaders s hdr =
     (case getline s hdr of
        None \<Rightarrow> None
      | Some (s', hdr') \<Rightarrow>
          if \<not> failbit s' \<and> hdr' \<noteq> [] \<and> hdr' \<noteq> [CR] then skipHeaders s' hdr'
          else Some (s', hdr'))"
  by pat_completeness auto
termination
proof (relation "measure (\<lambda>(s, hdr). length (unread s))")
  show "wf (measure (\<lambda>(s, hdr). length (unread s)))"
    by simp
next
  fix s hdr :: "iostream" and hdr0 :: string and x2 s' hdr'
  assume g: "getline s hdr0 = Some x2" and x: "(s', hdr') = x2"
    and c: "\<not> failbit s' \<and> hdr' \<noteq> [] \<and> hdr' \<noteq> [CR]"
  from g x have "getline s hdr0 = Some (s', hdr')" by simp
  with c have "length (unread s') < length (unread s)"
  proof (cases "LF \<in> set (unread s)")
    case True
    then have "0 < length (unread s)"
      by (cases "unread s") simp_all
    moreover have "length (dropWhile (\<lambda>c. c \<noteq> LF) (unread s)) \<le> length (unread s)"
      by (rule length_dropWhile_le)
    ultimately have "length (dropWhile (\<lambda>c. c \<noteq> LF) (unread s)) - Suc 0 < length (unread s)"
      by arith
    with True \<open>getline s hdr0 = Some (s', hdr')\<close> c show ?thesis
      by (auto simp: getline_def split: if_splits)
  next
    case False
    with \<open>getline s hdr0 = Some (s', hdr')\<close> c show ?thesis
      by (auto simp: getline_def split: if_splits)
  qed
  then show "((s', hdr'), (s, hdr0)) \<in> measure (\<lambda>(s, hdr). length (unread s))"
    by simp
qed

declare skipHeaders.simps [simp del]

text \<open>Lines 135-140: the request is the second word the client sent; the rest
  of the request line and the header lines are read and dropped.\<close>

definition readRequest :: "iostream \<Rightarrow> (iostream \<times> string) option" where
  "readRequest client =
     (case readWord client [] of
        None \<Rightarrow> None
      | Some (c1, r1) \<Rightarrow>
          (case readWord c1 r1 of
             None \<Rightarrow> None
           | Some (c2, request) \<Rightarrow>
               (case skipHeaders c2 [] of
                  None \<Rightarrow> None
                | Some (c3, hdr) \<Rightarrow> Some (c3, request))))"

text \<open>The calls a thread makes on a condition variable.\<close>

datatype wake = NotifyOne | NotifyAll

text \<open>
  \<open>clientThread\<close>.  Parameters for the code outside \<^verbatim>\<open>src/\<close>: \<open>url_decode\<close> is
  \<^verbatim>\<open>Helper::url_decode\<close>; \<open>process\<close> is \<^verbatim>\<open>SQLAirBase::process\<close>, which runs a statement
  on the program's state \<open>st\<close> and gives the new state, the text it wrote to the
  fresh \<^verbatim>\<open>ostringstream\<close>, and \<open>what()\<close> of the \<^verbatim>\<open>std::exception\<close> it threw, if any, or
  \<open>None\<close> when it does not come back (a statement that waits for good);
  \<open>httpFile\<close> is what \<^verbatim>\<open>http::file\<close> sends.
  The result is the client's stream, the program's state, the thread counter
  after line 156 and the calls made on \<^verbatim>\<open>thrCond\<close> at line 157.  A worker that waits
  for good is \<open>Blocked\<close>: it has not touched the counter and has made no call.
\<close>

definition clientThread ::
  "(string \<Rightarrow> string) \<Rightarrow> (string \<Rightarrow> 'st \<Rightarrow> ('st \<times> string \<times> string option) option)
   \<Rightarrow> (string \<Rightarrow> string) \<Rightarrow> iostream \<Rightarrow> 'st \<Rightarrow> int
   \<Rightarrow> (iostream \<times> 'st \<times> int \<times> wake list) outcome" where
  "clientThread url_decode process httpFile client st numThreads =
     (case readRequest client of
        None \<Rightarrow> Blocked (client, st, numThreads, [])
      | Some (c, request) \<Rightarrow>
          if starts_with ''/sql-air?query='' request then
            (case process (url_decode (drop 15 request)) st of
               None \<Rightarrow> Blocked (c, st, numThreads, [])
             | Some (st', os, thrown) \<Rightarrow>
                 (let body = (case thrown of
                                None \<Rightarrow> os
                              | Some what \<Rightarrow> os @ ''Error: '' @ what @ endl)
                  in Done (put c (HTTPRespHeader @ decimal (length body) @ [CR, LF, CR, LF] @ body),
                           st', numThreads - 1, [NotifyOne])))
          else if request \<noteq> [] then
            Done (put c (httpFile (drop 1 request)), st, numThreads - 1, [NotifyOne])
          else Done (c, st, numThreads - 1, [NotifyOne]))"

subsection \<open>The accept loop and its workers (lines 133-179)\<close>

text \<open>
  The accept loop and the workers run side by side, so the server is a machine
  that takes one step of one thread at a time; a schedule is the list of steps
  taken.  The steps of the loop:
  \<^item> \<open>Admit\<close>: the predicate of the wait of line 167 is evaluated and holds
    (\<^verbatim>\<open>numThreads < maxThr\<close>), so the wait returns;
  \<^item> \<open>Refuse\<close>: the predicate is evaluated and does not hold;
  \<^item> \<open>Park\<close>: the loop, refused, blocks on \<^verbatim>\<open>thrCond\<close>;
  \<^item> \<open>Wake\<close>: the blocked loop wakes up by itself (a spurious wakeup) and goes
    back to evaluate the predicate;
  \<^item> \<open>Spawn\<close>: a client is accepted and its thread is started (lines 170-175);
  \<^item> \<open>Count\<close>: \<^verbatim>\<open>numThreads++\<close> (line 176);
  \<^item> \<open>Detach\<close>: the thread is detached and the loop starts over (lines 177-178).

  The steps of a worker are those of \<open>clientThread\<close>:
  \<^item> \<open>Finish k\<close>: the worker of the \<open>k\<close>-th client being handled runs
    \<open>clientThread\<close> up to and including line 156, on the program's state and the
    counter of that moment; a worker that is \<open>Blocked\<close> cannot take this step;
  \<^item> \<open>Notify k\<close>: the \<open>k\<close>-th of the workers past line 156 makes its calls on
    \<^verbatim>\<open>thrCond\<close> (line 157); a call reaches the loop when the loop is blocked on
    \<^verbatim>\<open>thrCond\<close>, and the loop then evaluates the predicate again.

  \<open>handling\<close> are the clients whose workers are started and not yet past line
  156, \<open>leaving\<close> the calls still to be made by the workers between lines 156 and
  157, \<open>calls\<close> the calls made on \<^verbatim>\<open>thrCond\<close> so far.  The counter is declared in
  \<^verbatim>\<open>SQLAir.h\<close>, outside \<^verbatim>\<open>src/\<close>: it is taken to start at 0 and to be incremented
  and decremented atomically.
\<close>

datatype loop_pc = AtWait | Refused | Parked | AtAccept | AtCount | AtDetach

datatype action = Admit | Refuse | Park | Wake | Spawn iostream | Count | Detach | Finish nat | Notify nat

record 'st server =
  numThreads :: int
  loopAt :: loop_pc
  handling :: "iostream list"
  leaving :: "wake list list"
  calls :: "wake list"
  program :: 'st

definition initial :: "'st \<Rightarrow> 'st server" where
  "initial st =
     \<lparr>numThreads = 0, loopAt = AtWait, handling = [], leaving = [], calls = [], program = st\<rparr>"

text \<open>The threads blocked on \<^verbatim>\<open>thrCond\<close> that a call releases, out of \<open>n\<close> blocked
  ones.\<close>

definition released :: "wake \<Rightarrow> nat \<Rightarrow> nat" where
  "released w n = (case w of NotifyOne \<Rightarrow> min 1 n | NotifyAll \<Rightarrow> n)"

text \<open>The only thread that ever blocks on \<^verbatim>\<open>thrCond\<close> is the accept loop.\<close>

definition deliver :: "loop_pc \<Rightarrow> wake \<Rightarrow> loop_pc" where
  "deliver pc w = (if pc = Parked \<and> 0 < released w 1 then AtWait else pc)"

fun step ::
  "(string \<Rightarrow> string) \<Rightarrow> (string \<Rightarrow> 'st \<Rightarrow> ('st \<times> string \<times> string option) option)
   \<Rightarrow> (string \<Rightarrow> string) \<Rightarrow> int \<Rightarrow> action \<Rightarrow> 'st server \<Rightarrow> 'st server option" where
  "step url_decode process httpFile maxThr Admit s =
     (if loopAt s = AtWait \<and> numThreads s < maxThr then Some (s\<lparr>loopAt := AtAccept\<rparr>) else None)"
| "step url_decode process httpFile maxThr Refuse s =
     (if loopAt s = AtWait \<and> \<not> numThreads s < maxThr then Some (s\<lparr>loopAt := Refused\<rparr>) else None)"
| "step url_decode process httpFile maxThr Park s =
     (if loopAt s = Refused then Some (s\<lparr>loopAt := Parked\<rparr>) else None)"
| "step url_decode process httpFile maxThr Wake s =
     (if loopAt s = Parked then Some (s\<lparr>loopAt := AtWait\<rparr>) else None)"
| "step url_decode process httpFile maxThr (Spawn client) s =
     (if loopAt s = AtAccept
      then Some (s\<lparr>loopAt := AtCount, handling := handling s @ [client]\<rparr>) else None)"
| "step url_decode process httpFile maxThr Count s =
     (if loopAt s = AtCount
      then Some (s\<lparr>loopAt := AtDetach, numThreads := numThreads s + 1\<rparr>) else None)"
| "step url_decode process httpFile maxThr Detach s =
     (if loopAt s = AtDetach then Some (s\<lparr>loopAt := AtWait\<rparr>) else None)"
| "step url_decode process httpFile maxThr (Finish k) s =
     (if k < length (handling s) then
        (case clientThread url_decode process httpFile (handling s ! k) (program s) (numThreads s) of
           Done (client', st', n, ws) \<Rightarrow>
             Some (s\<lparr>handling := take k (handling s) @ drop (Suc k) (handling s),
                      leaving := leaving s @ [ws], numThreads := n, program := st'\<rparr>)
         | Raised e x \<Rightarrow> None
         | Undefined u \<Rightarrow> None
         | Blocked x \<Rightarrow> None)
      else None)"
| "step url_decode process httpFile maxThr (Notify k) s =
     (if k < length (leaving s)
      then Some (s\<lparr>leaving := take k (leaving s) @ drop (Suc k) (leaving s),
                    calls := calls s @ leaving s ! k,
                    loopAt := foldl deliver (loopAt s) (leaving s ! k)\<rparr>)
      else None)"

text \<open>\<open>runServer\<close> under a schedule; \<open>None\<close> when the schedule asks for a step that
  cannot be taken.\<close>

fun runServer ::
  "(string \<Rightarrow> string) \<Rightarrow> (string \<Rightarrow> 'st \<Rightarrow> ('st \<times> string \<times> string option) option)
   \<Rightarrow> (string \<Rightarrow> string) \<Rightarrow> int \<Rightarrow> action list \<Rightarrow> 'st server \<Rightarrow> 'st server option" where
  "runServer url_decode process httpFile maxThr [] s = Some s"
| "runServer url_decode process httpFile maxThr (a # schedule) s =
     (case step url_decode process httpFile maxThr a s of
        None \<Rightarrow> None
      | Some s' \<Rightarrow> runServer url_decode process httpFile maxThr schedule s')"

subsection \<open>Vocabulary of the properties\<close>

text \<open>Values separated by tabs: what the loop of \<open>display\<close> writes for a row.\<close>

fun tabbed :: "string list \<Rightarrow> string" where
  "tabbed [] = []"
| "tabbed [v] = v"
| "tabbed (v # w # vs) = v @ [TAB] @ tabbed (w # vs)"





text \<open>The rows a where-condition chooses.\<close>

definition matched ::
  "(string \<Rightarrow> string \<Rightarrow> string \<Rightarrow> error + bool) \<Rightarrow> int \<Rightarrow> string \<Rightarrow> string \<Rightarrow> CSVRow list \<Rightarrow> CSVRow list" where
  "matched matches whereColIdx cond val rows =
     filter (\<lambda>row. rowChosen matches whereColIdx cond val row = Inr True) rows"

text \<open>The writes of lines 101-103 in order: \<open>values[i]\<close> into the column named
  \<open>colNames[i]\<close>.\<close>

definition writeAll :: "CSV \<Rightarrow> string list \<Rightarrow> string list \<Rightarrow> CSVRow \<Rightarrow> CSVRow" where
  "writeAll csv colNames values row =
     foldl (\<lambda>r (colName, v). case getColumnIndex csv colName of Inl e \<Rightarrow> r | Inr k \<Rightarrow> r[k := v])
       row (zip colNames values)"

text \<open>The response whose body is the single line \<open>Error: <message>\<close>.\<close>

definition errorResponse :: "string \<Rightarrow> string" where
  "errorResponse what =
     HTTPRespHeader @ decimal (length (''Error: '' @ what @ endl)) @ [CR, LF, CR, LF]
       @ ''Error: '' @ what @ endl"

text \<open>The clients accepted and the calls made under a schedule.\<close>

fun spawns :: "action list \<Rightarrow> nat" where
  "spawns [] = 0"
| "spawns (Spawn client # schedule) = Suc (spawns schedule)"
| "spawns (a # schedule) = spawns schedule"

fun notifies :: "action list \<Rightarrow> nat" where
  "notifies [] = 0"
| "notifies (Notify k # schedule) = Suc (notifies schedule)"
| "notifies (a # schedule) = notifies schedule"

text \<open>The invariant of the server: the counter is the number of clients being
  handled, less the one just accepted and not counted yet; between the wait and
  the count the counter is below the maximum; every worker past line 156 is about
  to make the one call \<open>NotifyOne\<close>, and no other call was ever made.\<close>

definition counted :: "int \<Rightarrow> 'st server \<Rightarrow> bool" where
  "counted maxThr s =
     (int (length (handling s)) = numThreads s + (if loopAt s = AtCount then 1 else 0)
      \<and> (if loopAt s = AtAccept \<or> loopAt s = AtCount then numThreads s < maxThr
         else numThreads s \<le> max 0 maxThr)
      \<and> list_all (\<lambda>ws. ws = [NotifyOne]) (leaving s)
      \<and> list_all (\<lambda>w. w = NotifyOne) (calls s))"

subsection \<open>Inputs of the examples\<close>

text \<open>A comparator, a table of three rows, and a table with a status to wait for.\<close>

definition demoMatches :: "string \<Rightarrow> string \<Rightarrow> string \<Rightarrow> error + bool" where
  "demoMatches field cond v =
     (if cond = ''='' then Inr (field = v)
      else if cond = ''<>'' then Inr (field \<noteq> v)
      else Inl (Exp ''Invalid operator''))"

definition demoTable :: CSV where
  "demoTable = \<lparr>columnNames = [''id'', ''status''],
                 csvRows = [[''1'', ''pending''], [''2'', ''done''], [''3'', ''pending'']]\<rparr>"

definition jobTable :: CSV where
  "jobTable = \<lparr>columnNames = [''status'', ''note''], csvRows = [[''pending'', ''a'']]\<rparr>"

text \<open>The job table after its note was changed, and after its status was set to
  done as well.\<close>

definition jobTable1 :: CSV where
  "jobTable1 = \<lparr>columnNames = [''status'', ''note''], csvRows = [[''pending'', ''b'']]\<rparr>"

definition jobTable2 :: CSV where
  "jobTable2 = \<lparr>columnNames = [''status'', ''note''], csvRows = [[''done'', ''b'']]\<rparr>"

text \<open>A job table with two pending rows.\<close>

definition pendingJobs :: CSV where
  "pendingJobs = \<lparr>columnNames = [''status'', ''note''],
                   csvRows = [[''pending'', ''a''], [''pending'', ''b'']]\<rparr>"

text \<open>A cache in which nothing was loaded, a cache that holds the three-row
  table as its most recent one, a disk with no file on it, a loader that throws
  for every source, and a writer of tables.\<close>

definition emptyCache :: SQLAir where
  "emptyCache = \<lparr>inMemoryCSV = Map.empty, recentCSV = []\<rparr>"

definition loadedCache :: SQLAir where
  "loadedCache = \<lparr>inMemoryCSV = [''table.csv'' \<mapsto> demoTable], recentCSV = ''table.csv''\<rparr>"

definition noFiles :: "string \<rightharpoonup> string" where
  "noFiles = Map.empty"

definition noSource :: "string \<Rightarrow> error + CSV" where
  "noSource name = Inl (Exp (''Unable to load '' @ name))"

definition demoSave :: "bool \<Rightarrow> CSV \<Rightarrow> string \<times> error option" where
  "demoSave isOpen csv =
     (tabbed (columnNames csv) @ endl @ concat (map (\<lambda>row. tabbed row @ endl) (csvRows csv)), None)"

text \<open>A statement processor for the examples: it takes the query to be the name
  of the one column to select from the table and runs \<open>selectQuery\<close>; \<open>demoWhat\<close>
  stands for the messages of the exceptions.\<close>

definition demoWhat :: "error \<Rightarrow> string" where
  "demoWhat e =
     (case e of
        Exp m \<Rightarrow> m
      | OutOfRange \<Rightarrow> ''out of range''
      | LookupError name \<Rightarrow> ''Column not found: '' @ name)"

definition demoProcess :: "string \<Rightarrow> CSV \<Rightarrow> (CSV \<times> string \<times> string option) option" where
  "demoProcess query csv =
     (case selectQuery demoMatches tabbed csv [] False False [query] (- 1) [] [] [] of
        Done os \<Rightarrow> Some (csv, os, None)
      | Raised e os \<Rightarrow> Some (csv, os, Some (demoWhat e))
      | Undefined u \<Rightarrow> None
      | Blocked os \<Rightarrow> None)"

text \<open>A statement processor that runs \<open>insertQuery\<close> whatever the query is.\<close>

definition demoInsert :: "string \<Rightarrow> CSV \<Rightarrow> (CSV \<times> string \<times> string option) option" where
  "demoInsert query csv =
     (case insertQuery csv False [] [] [] of
        Done (csv', os) \<Rightarrow> Some (csv', os, None)
      | Raised e (csv', os) \<Rightarrow> Some (csv', os, Some (demoWhat e))
      | Undefined u \<Rightarrow> None
      | Blocked (csv', os) \<Rightarrow> None)"

text \<open>Three clients.  The first asks for the column \<open>nosuch\<close> and keeps its side of
  the connection open for the answer; the second sends an insert in the same
  way; the third sends the request line of the insert and closes its side without
  the empty line that ends the headers.\<close>

definition fresh :: "string \<Rightarrow> bool \<Rightarrow> iostream" where
  "fresh bytes hungUp =
     \<lparr>unread = bytes, peerClosed = hungUp, eofbit = False, failbit = False, sent = []\<rparr>"

definition demoClient :: iostream where
  "demoClient =
     fresh (''GET /sql-air?query=nosuch HTTP/1.1'' @ [CR, LF] @ ''Host: localhost'' @ [CR, LF]
            @ [CR, LF]) False"

definition insertClient :: iostream where
  "insertClient =
     fresh (''GET /sql-air?query=insert HTTP/1.1'' @ [CR, LF] @ ''Host: localhost'' @ [CR, LF]
            @ [CR, LF]) False"

definition hastyClient :: iostream where
  "hastyClient = fresh (''GET /sql-air?query=insert HTTP/1.1'' @ [CR, LF]) True"

section \<open>Properties\<close>

subsection \<open>insert and delete\<close>

text \<open>
  C6.  For every table and every argument list, \<open>insertQuery\<close> and \<open>deleteQuery\<close>
  throw the program's exception with the fixed message
  (\<open>insert is not yet implemented.\<close>, \<open>delete is not yet implemented.\<close>), leave the
  table and the output stream exactly as they were, and neither return normally nor
  block.
\<close>

theorem insert_delete_unsupported:
  "insertQuery csv mustWait colNames values os =
     Raised (Exp ''insert is not yet implemented.'') (csv, os)
   \<and> deleteQuery csv mustWait whereColIdx cond val os =
     Raised (Exp ''delete is not yet implemented.'') (csv, os)
   \<and> (\<forall>s. insertQuery csv mustWait colNames values os \<noteq> Blocked s
          \<and> insertQuery csv mustWait colNames values os \<noteq> Done s
          \<and> deleteQuery csv mustWait whereColIdx cond val os \<noteq> Blocked s
          \<and> deleteQuery csv mustWait whereColIdx cond val os \<noteq> Done s)"
  by (simp add: insertQuery_def deleteQuery_def)

subsection \<open>Column lookup\<close>

lemma indexOf_Some: "indexOf cs name = Some k \<Longrightarrow> k < length cs \<and> cs ! k = name"
proof (induction cs arbitrary: k)
  case Nil
  then show ?case by simp
next
  case (Cons c cs)
  then show ?case
    by (auto split: if_splits option.splits)
qed



lemma getColumnIndex_Inr:
  "getColumnIndex csv name = Inr k \<Longrightarrow> k < length (columnNames csv) \<and> columnNames csv ! k = name"
  by (auto simp: getColumnIndex_def split: option.splits dest: indexOf_Some)

lemma getColumnIndex_inj:
  "getColumnIndex csv a = Inr k \<Longrightarrow> getColumnIndex csv b = Inr k \<Longrightarrow> a = b"
  using getColumnIndex_Inr by blast

subsection \<open>select\<close>



















subsection \<open>The table cache\<close>

text \<open>
  C1 (amended).  When \<open>loadAndGet\<close> is called with an identifier whose resolved
  name (the most recently used name if the identifier is empty, the identifier
  otherwise) is not in the cache, and loading that name fails, then the error of
  the loader leaves the call, the map from names to tables is unchanged, and the
  most recently used name is the resolved name (line 239 stores it before the
  lookup and the load).
\<close>

theorem loadAndGet_failed_load:
  assumes "name = (if fileOrURL = [] then recentCSV air else fileOrURL)"
    and "inMemoryCSV air name = None"
    and "(if starts_with ''http://'' name then download name else loadFile name) = Inl e"
  shows "loadAndGet download loadFile fileOrURL air = (air\<lparr>recentCSV := name\<rparr>, Inl e)
       \<and> inMemoryCSV (fst (loadAndGet download loadFile fileOrURL air)) = inMemoryCSV air
       \<and> recentCSV (fst (loadAndGet download loadFile fileOrURL air)) = name"
proof -
  have "loadAndGet download loadFile fileOrURL air = (air\<lparr>recentCSV := name\<rparr>, Inl e)"
    using assms by (auto simp: loadAndGet_def Let_def split: if_splits)
  then show ?thesis by simp
qed

theorem loadAndGet_failed_load_witness:
  "inMemoryCSV emptyCache ''table.csv'' = None
   \<and> loadAndGet noSource noSource ''table.csv'' emptyCache =
        (emptyCache\<lparr>recentCSV := ''table.csv''\<rparr>, Inl (Exp ''Unable to load table.csv''))
   \<and> inMemoryCSV (fst (loadAndGet noSource noSource ''table.csv'' emptyCache)) = inMemoryCSV emptyCache
   \<and> recentCSV (fst (loadAndGet noSource noSource ''table.csv'' emptyCache)) = ''table.csv''"
proof -
  have a: "''table.csv'' = (if ''table.csv'' = [] then recentCSV emptyCache else ''table.csv'')"
    by simp
  have b: "inMemoryCSV emptyCache ''table.csv'' = None"
    by (simp add: emptyCache_def)
  have c: "(if starts_with ''http://'' ''table.csv'' then noSource ''table.csv''
            else noSource ''table.csv'') = Inl (Exp ''Unable to load table.csv'')"
    by (simp add: noSource_def)
  from loadAndGet_failed_load [where name = "''table.csv''" and fileOrURL = "''table.csv''"
      and air = emptyCache and download = noSource and loadFile = noSource
      and e = "Exp ''Unable to load table.csv''", OF a b c] b
  show ?thesis by simp
qed

theorem loadAndGet_failed_load_counterexample:
  "inMemoryCSV emptyCache ''table.csv'' = None
   \<and> noSource ''table.csv'' = Inl (Exp ''Unable to load table.csv'')
   \<and> snd (loadAndGet noSource noSource ''table.csv'' emptyCache) = Inl (Exp ''Unable to load table.csv'')
   \<and> recentCSV (fst (loadAndGet noSource noSource ''table.csv'' emptyCache)) \<noteq> recentCSV emptyCache"
  by (simp add: loadAndGet_def Let_def emptyCache_def noSource_def starts_with_def)



text \<open>
  C8 (amended).  \<open>saveQuery\<close> throws the program's exception, and touches neither
  disk nor stream, whenever the most recently used name is empty or starts with
  \<open>http://\<close>.  When that name is a local one under which the cache holds a table,
  the file of that name opens for writing and the writer of the table throws
  nothing, \<open>saveQuery\<close> returns: the file of that name then holds what the writer
  wrote, and the stream has the line \<open><name> saved.\<close>.
\<close>

theorem saveQuery_outcomes:
  "(recentCSV air = [] \<or> starts_with ''http://'' (recentCSV air) \<longrightarrow>
        saveQuery opens save air files os =
          Raised (Exp ''Saving CSV to an URL using POST is not implemented'') (files, os))
   \<and> (\<forall>csv contents.
        recentCSV air \<noteq> [] \<and> \<not> starts_with ''http://'' (recentCSV air)
        \<and> inMemoryCSV air (recentCSV air) = Some csv
        \<and> opens (recentCSV air) \<and> save True csv = (contents, None) \<longrightarrow>
        saveQuery opens save air files os =
          Done (files(recentCSV air \<mapsto> contents), os @ recentCSV air @ '' saved.'' @ endl))"
  by (simp add: saveQuery_def Let_def)

theorem saveQuery_outcomes_witness:
  "recentCSV loadedCache \<noteq> [] \<and> \<not> starts_with ''http://'' (recentCSV loadedCache)
   \<and> inMemoryCSV loadedCache (recentCSV loadedCache) = Some demoTable
   \<and> saveQuery (\<lambda>path. True) demoSave loadedCache noFiles [] =
        Done (noFiles(''table.csv'' \<mapsto> fst (demoSave True demoTable)), ''table.csv saved.'' @ endl)
   \<and> recentCSV emptyCache = []
   \<and> saveQuery (\<lambda>path. True) demoSave emptyCache noFiles [] =
        Raised (Exp ''Saving CSV to an URL using POST is not implemented'') (noFiles, [])"
proof -
  have pre: "recentCSV loadedCache \<noteq> [] \<and> \<not> starts_with ''http://'' (recentCSV loadedCache)"
    by (simp add: loadedCache_def starts_with_def)
  have cached: "inMemoryCSV loadedCache (recentCSV loadedCache) = Some demoTable"
    by (simp add: loadedCache_def)
  have ok: "demoSave True demoTable = (fst (demoSave True demoTable), None)"
    by (simp add: demoSave_def)
  from saveQuery_outcomes [of loadedCache "\<lambda>path. True" demoSave noFiles "[]"] pre cached ok
  have "saveQuery (\<lambda>path. True) demoSave loadedCache noFiles [] =
        Done (noFiles(recentCSV loadedCache \<mapsto> fst (demoSave True demoTable)),
              [] @ recentCSV loadedCache @ '' saved.'' @ endl)"
    by blast
  then have saved: "saveQuery (\<lambda>path. True) demoSave loadedCache noFiles [] =
        Done (noFiles(''table.csv'' \<mapsto> fst (demoSave True demoTable)), ''table.csv saved.'' @ endl)"
    by (simp add: loadedCache_def)
  have unset: "recentCSV emptyCache = []"
    by (simp add: emptyCache_def)
  with saveQuery_outcomes [of emptyCache "\<lambda>path. True" demoSave noFiles "[]"]
  have refused: "saveQuery (\<lambda>path. True) demoSave emptyCache noFiles [] =
        Raised (Exp ''Saving CSV to an URL using POST is not implemented'') (noFiles, [])"
    by blast
  from pre cached saved unset refused show ?thesis by blast
qed

text \<open>
  After a load of \<open>table.csv\<close> that failed, the most recently used name is
  \<open>table.csv\<close>, neither empty nor remote, and the cache has no table under it:
  \<open>saveQuery\<close> fails all the same, with \<^verbatim>\<open>std::out_of_range\<close> from line 281.
\<close>

theorem saveQuery_counterexample:
  "recentCSV (fst (loadAndGet noSource noSource ''table.csv'' emptyCache)) \<noteq> []
   \<and> \<not> starts_with ''http://'' (recentCSV (fst (loadAndGet noSource noSource ''table.csv'' emptyCache)))
   \<and> saveQuery (\<lambda>path. True) demoSave (fst (loadAndGet noSource noSource ''table.csv'' emptyCache))
        noFiles [] =
       Raised OutOfRange (noFiles(''table.csv'' \<mapsto> []), [])"
  by (simp add: saveQuery_def loadAndGet_def Let_def emptyCache_def noSource_def starts_with_def)

subsection \<open>A worker\<close>

lemma clientThread_query:
  assumes "readRequest client = Some (c, request)"
    and "starts_with ''/sql-air?query='' request"
    and "process (url_decode (drop 15 request)) st = Some (st', os, thrown)"
    and "body = (case thrown of None \<Rightarrow> os | Some what \<Rightarrow> os @ ''Error: '' @ what @ endl)"
    and "n = length body"
  shows "clientThread url_decode process httpFile client st threads =
           Done (put c (HTTPRespHeader @ decimal n @ [CR, LF, CR, LF] @ body),
                 st', threads - 1, [NotifyOne])"
  using assms by (simp add: clientThread_def Let_def)

lemma clientThread_Done:
  assumes "clientThread url_decode process httpFile client st threads = Done (c', st', n, ws)"
  shows "n = threads - 1 \<and> ws = [NotifyOne]"
  using assms
  by (auto simp: clientThread_def Let_def split: option.splits if_splits prod.splits)

lemma demoClient_request:
  "readRequest demoClient = Some (demoClient\<lparr>unread := []\<rparr>, ''/sql-air?query=nosuch'')"
  by (simp add: readRequest_def readWord_def getline_def skipHeaders.simps good_def isspace_def
        demoClient_def fresh_def LF_def CR_def TAB_def Let_def)

lemma insertClient_request:
  "readRequest insertClient = Some (insertClient\<lparr>unread := []\<rparr>, ''/sql-air?query=insert'')"
  by (simp add: readRequest_def readWord_def getline_def skipHeaders.simps good_def isspace_def
        insertClient_def fresh_def LF_def CR_def TAB_def Let_def)

lemma hastyClient_request:
  "readRequest hastyClient =
     Some (hastyClient\<lparr>unread := [], eofbit := True, failbit := True\<rparr>, ''/sql-air?query=insert'')"
  by (simp add: readRequest_def readWord_def getline_def skipHeaders.simps good_def isspace_def
        hastyClient_def fresh_def LF_def CR_def TAB_def Let_def)

lemma demoProcess_nosuch:
  "demoProcess ''nosuch'' demoTable =
     Some (demoTable, ''nosuch'' @ endl, Some ''Column not found: nosuch'')"
  by (simp add: demoProcess_def selectQuery.simps demoTable_def rowChosen_def display_def
        getColumnIndex_def demoWhat_def)

lemma demoInsert_insert:
  "demoInsert query demoTable = Some (demoTable, [], Some ''insert is not yet implemented.'')"
  by (simp add: demoInsert_def insertQuery_def demoWhat_def)

lemma demo_request:
  "clientThread (\<lambda>q. q) demoProcess (\<lambda>path. []) demoClient demoTable threads =
     Done (demoClient\<lparr>unread := [],
                       sent := HTTPRespHeader @ ''39'' @ [CR, LF, CR, LF]
                                 @ ''nosuch'' @ endl @ ''Error: Column not found: nosuch'' @ endl\<rparr>,
           demoTable, threads - 1, [NotifyOne])"
proof -
  have a: "starts_with ''/sql-air?query='' ''/sql-air?query=nosuch''"
    by (simp add: starts_with_def)
  have b: "demoProcess ((\<lambda>q. q) (drop 15 ''/sql-air?query=nosuch'')) demoTable =
             Some (demoTable, ''nosuch'' @ endl, Some ''Column not found: nosuch'')"
    using demoProcess_nosuch by simp
  have d: "decimal 39 = ''39''"
    by (simp add: decimal.simps digit_def)
  have "clientThread (\<lambda>q. q) demoProcess (\<lambda>path. []) demoClient demoTable threads =
       Done (put (demoClient\<lparr>unread := []\<rparr>)
               (HTTPRespHeader @ decimal 39 @ [CR, LF, CR, LF]
                  @ (''nosuch'' @ endl @ ''Error: '' @ ''Column not found: nosuch'' @ endl)),
             demoTable, threads - 1, [NotifyOne])"
    using demoClient_request a b
    by (intro clientThread_query [where thrown = "Some ''Column not found: nosuch''"
          and os = "''nosuch'' @ endl" and request = "''/sql-air?query=nosuch''"])
       (simp_all add: endl_def)
  then show ?thesis
    by (simp add: d put_def good_def demoClient_def fresh_def)
qed

text \<open>
  C5 (amended).  A worker has read a request that carries a query (lines 135-140),
  and running the query throws a \<^verbatim>\<open>std::exception\<close>.  The worker catches it and
  answers: the body of the response is whatever the query had written before it
  threw, followed by the line \<open>Error: <message>\<close>; the \<open>Content-Length\<close> header is the
  byte length of that body; when the query wrote nothing before it threw, the
  body is that single line.  The response goes to the client when the client's
  stream is still good after the request was read; when it is not (the header
  lines ran into the end of the input), nothing is written.  Either way the
  worker completes: it decrements the thread counter and calls \<^verbatim>\<open>notify_one\<close> once.
\<close>

theorem clientThread_error_response:
  assumes "readRequest client = Some (c, request)"
    and "starts_with ''/sql-air?query='' request"
    and "process (url_decode (drop 15 request)) st = Some (st', os, Some what)"
  shows "\<exists>c'. clientThread url_decode process httpFile client st threads =
                Done (c', st', threads - 1, [NotifyOne])
          \<and> (good c \<longrightarrow>
                sent c' = sent c @ HTTPRespHeader
                            @ decimal (length (os @ ''Error: '' @ what @ endl)) @ [CR, LF, CR, LF]
                            @ os @ ''Error: '' @ what @ endl)
          \<and> (good c \<and> os = [] \<longrightarrow> sent c' = sent c @ errorResponse what)
          \<and> (\<not> good c \<longrightarrow> sent c' = sent c)"
proof -
  let ?response = "HTTPRespHeader @ decimal (length (os @ ''Error: '' @ what @ endl))
                     @ [CR, LF, CR, LF] @ (os @ ''Error: '' @ what @ endl)"
  have "clientThread url_decode process httpFile client st threads =
           Done (put c ?response, st', threads - 1, [NotifyOne])"
    using assms by (intro clientThread_query [where thrown = "Some what"]) simp_all
  moreover have "good c \<longrightarrow> sent (put c ?response) = sent c @ ?response"
    by (simp add: put_def)
  moreover have "good c \<and> os = [] \<longrightarrow> sent (put c ?response) = sent c @ errorResponse what"
    by (simp add: put_def errorResponse_def)
  moreover have "\<not> good c \<longrightarrow> sent (put c ?response) = sent c"
    by (simp add: put_def)
  ultimately show ?thesis
    by (intro exI [of _ "put c ?response"]) simp
qed

theorem clientThread_error_response_witness:
  "readRequest demoClient = Some (demoClient\<lparr>unread := []\<rparr>, ''/sql-air?query=nosuch'')
   \<and> good (demoClient\<lparr>unread := []\<rparr>)
   \<and> demoProcess (drop 15 ''/sql-air?query=nosuch'') demoTable =
        Some (demoTable, ''nosuch'' @ endl, Some ''Column not found: nosuch'')
   \<and> (\<exists>c'. clientThread (\<lambda>q. q) demoProcess (\<lambda>path. []) demoClient demoTable 1 =
               Done (c', demoTable, 0, [NotifyOne])
          \<and> sent c' = HTTPRespHeader @ ''39'' @ [CR, LF, CR, LF]
                         @ ''nosuch'' @ endl @ ''Error: Column not found: nosuch'' @ endl)
   \<and> readRequest insertClient = Some (insertClient\<lparr>unread := []\<rparr>, ''/sql-air?query=insert'')
   \<and> good (insertClient\<lparr>unread := []\<rparr>)
   \<and> demoInsert (drop 15 ''/sql-air?query=insert'') demoTable =
        Some (demoTable, [], Some ''insert is not yet implemented.'')
   \<and> (\<exists>c'. clientThread (\<lambda>q. q) demoInsert (\<lambda>path. []) insertClient demoTable 1 =
               Done (c', demoTable, 0, [NotifyOne])
          \<and> sent c' = errorResponse ''insert is not yet implemented.'')
   \<and> readRequest hastyClient =
        Some (hastyClient\<lparr>unread := [], eofbit := True, failbit := True\<rparr>, ''/sql-air?query=insert'')
   \<and> \<not> good (hastyClient\<lparr>unread := [], eofbit := True, failbit := True\<rparr>)
   \<and> (\<exists>c'. clientThread (\<lambda>q. q) demoInsert (\<lambda>path. []) hastyClient demoTable 1 =
               Done (c', demoTable, 0, [NotifyOne])
          \<and> sent c' = [])"
proof -
  have a: "starts_with ''/sql-air?query='' ''/sql-air?query=nosuch''"
    by (simp add: starts_with_def)
  have b: "demoProcess ((\<lambda>q. q) (drop 15 ''/sql-air?query=nosuch'')) demoTable =
             Some (demoTable, ''nosuch'' @ endl, Some ''Column not found: nosuch'')"
    using demoProcess_nosuch by simp
  have g: "good (demoClient\<lparr>unread := []\<rparr>)"
    by (simp add: good_def demoClient_def fresh_def)
  have s: "sent (demoClient\<lparr>unread := []\<rparr>) = []"
    by (simp add: demoClient_def fresh_def)
  have len: "length ((''nosuch'' @ endl) @ ''Error: '' @ ''Column not found: nosuch'' @ endl) = 39"
    by (simp add: endl_def)
  have d: "decimal 39 = ''39''"
    by (simp add: decimal.simps digit_def)
  from clientThread_error_response [where process = demoProcess and url_decode = "\<lambda>q. q"
        and httpFile = "\<lambda>path. []" and threads = 1 and request = "''/sql-air?query=nosuch''"
        and client = demoClient and c = "demoClient\<lparr>unread := []\<rparr>"
        and st = demoTable and st' = demoTable and os = "''nosuch'' @ endl"
        and what = "''Column not found: nosuch''", OF demoClient_request a b] g
  obtain c1 where
    "clientThread (\<lambda>q. q) demoProcess (\<lambda>path. []) demoClient demoTable 1 =
       Done (c1, demoTable, 1 - 1, [NotifyOne])"
    and "sent c1 = sent (demoClient\<lparr>unread := []\<rparr>) @ HTTPRespHeader
           @ decimal (length ((''nosuch'' @ endl) @ ''Error: '' @ ''Column not found: nosuch'' @ endl))
           @ [CR, LF, CR, LF] @ (''nosuch'' @ endl) @ ''Error: '' @ ''Column not found: nosuch'' @ endl"
    by blast
  then have first: "\<exists>c'. clientThread (\<lambda>q. q) demoProcess (\<lambda>path. []) demoClient demoTable 1 =
               Done (c', demoTable, 0, [NotifyOne])
          \<and> sent c' = HTTPRespHeader @ ''39'' @ [CR, LF, CR, LF]
                         @ ''nosuch'' @ endl @ ''Error: Column not found: nosuch'' @ endl"
    unfolding len d s by simp
  have a': "starts_with ''/sql-air?query='' ''/sql-air?query=insert''"
    by (simp add: starts_with_def)
  have b': "demoInsert ((\<lambda>q. q) (drop 15 ''/sql-air?query=insert'')) demoTable =
             Some (demoTable, [], Some ''insert is not yet implemented.'')"
    by (rule demoInsert_insert)
  have g': "good (insertClient\<lparr>unread := []\<rparr>)"
    by (simp add: good_def insertClient_def fresh_def)
  have s': "sent (insertClient\<lparr>unread := []\<rparr>) = []"
    by (simp add: insertClient_def fresh_def)
  from clientThread_error_response [where process = demoInsert and url_decode = "\<lambda>q. q"
        and httpFile = "\<lambda>path. []" and threads = 1 and request = "''/sql-air?query=insert''"
        and client = insertClient and c = "insertClient\<lparr>unread := []\<rparr>"
        and st = demoTable and st' = demoTable and os = "[]"
        and what = "''insert is not yet implemented.''", OF insertClient_request a' b'] g'
  obtain c2 where
    "clientThread (\<lambda>q. q) demoInsert (\<lambda>path. []) insertClient demoTable 1 =
       Done (c2, demoTable, 1 - 1, [NotifyOne])"
    and "sent c2 = sent (insertClient\<lparr>unread := []\<rparr>) @ errorResponse ''insert is not yet implemented.''"
    by blast
  then have second: "\<exists>c'. clientThread (\<lambda>q. q) demoInsert (\<lambda>path. []) insertClient demoTable 1 =
               Done (c', demoTable, 0, [NotifyOne])
          \<and> sent c' = errorResponse ''insert is not yet implemented.''"
    unfolding s' by simp
  have g'': "\<not> good (hastyClient\<lparr>unread := [], eofbit := True, failbit := True\<rparr>)"
    by (simp add: good_def)
  have s'': "sent (hastyClient\<lparr>unread := [], eofbit := True, failbit := True\<rparr>) = []"
    by (simp add: hastyClient_def fresh_def)
  from clientThread_error_response [where process = demoInsert and url_decode = "\<lambda>q. q"
        and httpFile = "\<lambda>path. []" and threads = 1 and request = "''/sql-air?query=insert''"
        and client = hastyClient
        and c = "hastyClient\<lparr>unread := [], eofbit := True, failbit := True\<rparr>"
        and st = demoTable and st' = demoTable and os = "[]"
        and what = "''insert is not yet implemented.''", OF hastyClient_request a' b'] g''
  obtain c3 where
    "clientThread (\<lambda>q. q) demoInsert (\<lambda>path. []) hastyClient demoTable 1 =
       Done (c3, demoTable, 1 - 1, [NotifyOne])"
    and "sent c3 = sent (hastyClient\<lparr>unread := [], eofbit := True, failbit := True\<rparr>)"
    by blast
  then have third: "\<exists>c'. clientThread (\<lambda>q. q) demoInsert (\<lambda>path. []) hastyClient demoTable 1 =
               Done (c', demoTable, 0, [NotifyOne])
          \<and> sent c' = []"
    unfolding s'' by simp
  from demoClient_request g b first insertClient_request g' b' second hastyClient_request g'' third
  show ?thesis by simp
qed

text \<open>
  The client asks for a column that the table does not have.  The query has
  written the header line \<open>nosuch\<close> when the lookup of the column throws, so the
  body of the response has two lines and is not the single line \<open>Error: <message>\<close>.
\<close>

theorem clientThread_error_response_counterexample:
  "readRequest demoClient = Some (demoClient\<lparr>unread := []\<rparr>, ''/sql-air?query=nosuch'')
   \<and> good (demoClient\<lparr>unread := []\<rparr>)
   \<and> demoProcess ''nosuch'' demoTable =
        Some (demoTable, ''nosuch'' @ endl, Some ''Column not found: nosuch'')
   \<and> clientThread (\<lambda>q. q) demoProcess (\<lambda>path. []) demoClient demoTable 1 =
        Done (demoClient\<lparr>unread := [],
                          sent := HTTPRespHeader @ ''39'' @ [CR, LF, CR, LF]
                                    @ ''nosuch'' @ endl @ ''Error: Column not found: nosuch'' @ endl\<rparr>,
              demoTable, 0, [NotifyOne])
   \<and> HTTPRespHeader @ ''39'' @ [CR, LF, CR, LF]
         @ ''nosuch'' @ endl @ ''Error: Column not found: nosuch'' @ endl
       \<noteq> errorResponse ''Column not found: nosuch''"
proof -
  have d2: "decimal 32 = ''32''"
    by (simp add: decimal.simps digit_def)
  have "length (''Error: '' @ ''Column not found: nosuch'' @ endl) = 32"
    by (simp add: endl_def)
  then have e: "errorResponse ''Column not found: nosuch'' =
      HTTPRespHeader @ ''32'' @ [CR, LF, CR, LF] @ ''Error: '' @ ''Column not found: nosuch'' @ endl"
    unfolding errorResponse_def by (simp only: d2)
  have g: "good (demoClient\<lparr>unread := []\<rparr>)"
    by (simp add: good_def demoClient_def fresh_def)
  have ne: "HTTPRespHeader @ ''39'' @ [CR, LF, CR, LF]
         @ ''nosuch'' @ endl @ ''Error: Column not found: nosuch'' @ endl
       \<noteq> errorResponse ''Column not found: nosuch''"
    unfolding e by simp
  from demoClient_request g demoProcess_nosuch demo_request [of 1] ne show ?thesis
    by simp
qed

subsection \<open>The accept loop and its workers\<close>

lemma counted_initial: "counted maxThr (initial st)"
  by (simp add: counted_def initial_def)

lemma length_without:
  "k < length xs \<Longrightarrow> length (take k xs @ drop (Suc k) xs) = length xs - 1"
  by simp

lemma list_all_without:
  "list_all P xs \<Longrightarrow> list_all P (take k xs @ drop (Suc k) xs)"
  by (auto simp: list_all_iff dest: in_set_takeD in_set_dropD)

lemma step_Finish:
  assumes "step url_decode process httpFile maxThr (Finish k) s = Some s'"
  shows "k < length (handling s)
       \<and> (\<exists>st'. s' = s\<lparr>handling := take k (handling s) @ drop (Suc k) (handling s),
                         leaving := leaving s @ [[NotifyOne]],
                         numThreads := numThreads s - 1, program := st'\<rparr>)"
proof -
  from assms have k: "k < length (handling s)"
    by (simp split: if_splits)
  with assms obtain c' st' n ws where
    run: "clientThread url_decode process httpFile (handling s ! k) (program s) (numThreads s) =
            Done (c', st', n, ws)"
    and s': "s' = s\<lparr>handling := take k (handling s) @ drop (Suc k) (handling s),
                     leaving := leaving s @ [ws], numThreads := n, program := st'\<rparr>"
    by (auto split: outcome.splits)
  from clientThread_Done [OF run] s' k show ?thesis
    by auto
qed

lemma step_Notify:
  assumes "counted maxThr s"
    and "step url_decode process httpFile maxThr (Notify k) s = Some s'"
  shows "k < length (leaving s)
       \<and> s' = s\<lparr>leaving := take k (leaving s) @ drop (Suc k) (leaving s),
                 calls := calls s @ [NotifyOne],
                 loopAt := (if loopAt s = Parked then AtWait else loopAt s)\<rparr>"
proof -
  from assms(2) have k: "k < length (leaving s)"
    by (simp split: if_splits)
  with assms(1) have "leaving s ! k = [NotifyOne]"
    by (simp add: counted_def list_all_length)
  with assms(2) k show ?thesis
    by (auto simp: deliver_def released_def)
qed

lemma step_counted:
  assumes "counted maxThr s" and "step url_decode process httpFile maxThr a s = Some s'"
  shows "counted maxThr s'"
proof (cases a)
  case Admit
  with assms show ?thesis by (auto simp: counted_def split: if_splits)
next
  case Refuse
  with assms show ?thesis by (auto simp: counted_def split: if_splits)
next
  case Park
  with assms show ?thesis by (auto simp: counted_def split: if_splits)
next
  case Wake
  with assms show ?thesis by (auto simp: counted_def split: if_splits)
next
  case (Spawn client)
  with assms show ?thesis by (auto simp: counted_def split: if_splits)
next
  case Count
  with assms show ?thesis by (auto simp: counted_def split: if_splits)
next
  case Detach
  with assms show ?thesis by (auto simp: counted_def split: if_splits)
next
  case (Finish k)
  with assms(2) have "step url_decode process httpFile maxThr (Finish k) s = Some s'"
    by simp
  from step_Finish [OF this] obtain st' where k: "k < length (handling s)"
    and s': "s' = s\<lparr>handling := take k (handling s) @ drop (Suc k) (handling s),
                     leaving := leaving s @ [[NotifyOne]],
                     numThreads := numThreads s - 1, program := st'\<rparr>"
    by blast
  from k have "int (length (take k (handling s) @ drop (Suc k) (handling s))) =
                 int (length (handling s)) - 1"
    by (simp add: length_without)
  with assms(1) s' show ?thesis
    by (auto simp: counted_def split: if_splits)
next
  case (Notify k)
  with assms(2) have "step url_decode process httpFile maxThr (Notify k) s = Some s'"
    by simp
  from step_Notify [OF assms(1) this] have k: "k < length (leaving s)"
    and s': "s' = s\<lparr>leaving := take k (leaving s) @ drop (Suc k) (leaving s),
                     calls := calls s @ [NotifyOne],
                     loopAt := (if loopAt s = Parked then AtWait else loopAt s)\<rparr>"
    by simp_all
  from assms(1) have "list_all (\<lambda>ws. ws = [NotifyOne]) (take k (leaving s) @ drop (Suc k) (leaving s))"
    unfolding counted_def by (intro list_all_without) simp
  with assms(1) s' show ?thesis
    by (auto simp: counted_def split: if_splits)
qed

lemma step_workers:
  assumes "counted maxThr s" and "step url_decode process httpFile maxThr a s = Some s'"
  shows "length (calls s') + length (leaving s') + length (handling s') =
           length (calls s) + length (leaving s) + length (handling s) + spawns [a]
       \<and> length (calls s') = length (calls s) + notifies [a]"
proof (cases a)
  case (Finish k)
  with assms(2) have "step url_decode process httpFile maxThr (Finish k) s = Some s'"
    by simp
  from step_Finish [OF this] Finish show ?thesis
    by (auto simp: length_without)
next
  case (Notify k)
  with assms(2) have "step url_decode process httpFile maxThr (Notify k) s = Some s'"
    by simp
  from step_Notify [OF assms(1) this] Notify show ?thesis
    by (auto simp: length_without)
qed (use assms in \<open>auto split: if_splits\<close>)

lemma spawns_Cons: "spawns (a # schedule) = spawns [a] + spawns schedule"
  by (cases a) simp_all

lemma notifies_Cons: "notifies (a # schedule) = notifies [a] + notifies schedule"
  by (cases a) simp_all

lemma runServer_counted:
  "counted maxThr s \<Longrightarrow> runServer url_decode process httpFile maxThr schedule s = Some s'
   \<Longrightarrow> counted maxThr s'
       \<and> length (calls s') + length (leaving s') + length (handling s') =
           length (calls s) + length (leaving s) + length (handling s) + spawns schedule
       \<and> length (calls s') = length (calls s) + notifies schedule"
proof (induction schedule arbitrary: s)
  case Nil
  then show ?case by simp
next
  case (Cons a schedule)
  from Cons.prems(2) obtain s1 where s1: "step url_decode process httpFile maxThr a s = Some s1"
    and rest: "runServer url_decode process httpFile maxThr schedule s1 = Some s'"
    by (auto split: option.splits)
  from step_counted [OF Cons.prems(1) s1] have c1: "counted maxThr s1" .
  from Cons.IH [OF c1 rest] step_workers [OF Cons.prems(1) s1]
  show ?case
    by (simp add: spawns_Cons [of a schedule] notifies_Cons [of a schedule])
qed

text \<open>
  C4.  Under every schedule of the accept loop and the workers, the number of
  clients being handled is at most \<open>maxThr\<close> (at most 0 for a negative \<open>maxThr\<close>).
  The mechanism behind the bound: the wait lets the loop pass only while the
  counter is strictly below \<open>maxThr\<close>, and it stays so until the loop has counted
  the new worker, which it does before it detaches it; the counter equals the
  number of clients being handled, less the one accepted and not yet counted.
  Every worker that completes \<open>clientThread\<close> leaves the counter one lower and
  makes exactly one call on the condition variable, a \<^verbatim>\<open>notify_one\<close>: of the clients
  accepted, those no longer handled are the workers that have made that call and
  the ones about to make it; no call other than \<^verbatim>\<open>notify_one\<close> is ever made, there
  are as many calls as \<open>Notify\<close> steps, and a call releases at most one blocked
  thread.  A call made while the loop is blocked in the wait wakes the loop, which
  then evaluates the predicate again.
\<close>

theorem admission_bound:
  assumes "runServer url_decode process httpFile maxThr schedule (initial st) = Some s"
  shows "int (length (handling s)) \<le> max 0 maxThr
       \<and> int (length (handling s)) = numThreads s + (if loopAt s = AtCount then 1 else 0)
       \<and> (loopAt s = AtAccept \<or> loopAt s = AtCount \<longrightarrow> numThreads s < maxThr)
       \<and> (\<forall>k c' st' n ws.
            k < length (handling s)
            \<and> clientThread url_decode process httpFile (handling s ! k) (program s) (numThreads s)
                = Done (c', st', n, ws)
            \<longrightarrow> n = numThreads s - 1 \<and> ws = [NotifyOne])
       \<and> length (calls s) + length (leaving s) + length (handling s) = spawns schedule
       \<and> (\<forall>ws \<in> set (leaving s). ws = [NotifyOne])
       \<and> calls s = replicate (notifies schedule) NotifyOne
       \<and> (\<forall>w \<in> set (calls s). \<forall>n. released w n = min 1 n)
       \<and> (\<forall>k s'. loopAt s = Parked
            \<and> step url_decode process httpFile maxThr (Notify k) s = Some s'
            \<longrightarrow> loopAt s' = AtWait)"
proof -
  from runServer_counted [OF counted_initial assms]
  have c: "counted maxThr s"
    and w: "length (calls s) + length (leaving s) + length (handling s) = spawns schedule"
    and n: "length (calls s) = notifies schedule"
    by (simp_all add: initial_def)
  from c have bound: "int (length (handling s)) \<le> max 0 maxThr"
    by (auto simp: counted_def split: if_splits)
  from c have eq: "int (length (handling s)) = numThreads s + (if loopAt s = AtCount then 1 else 0)"
    by (simp add: counted_def)
  from c have below: "loopAt s = AtAccept \<or> loopAt s = AtCount \<longrightarrow> numThreads s < maxThr"
    by (auto simp: counted_def split: if_splits)
  have worker: "\<forall>k c' st' n ws.
            k < length (handling s)
            \<and> clientThread url_decode process httpFile (handling s ! k) (program s) (numThreads s)
                = Done (c', st', n, ws)
            \<longrightarrow> n = numThreads s - 1 \<and> ws = [NotifyOne]"
  proof (intro allI impI)
    fix k c' st' n ws
    assume "k < length (handling s)
            \<and> clientThread url_decode process httpFile (handling s ! k) (program s) (numThreads s)
                = Done (c', st', n, ws)"
    then have "clientThread url_decode process httpFile (handling s ! k) (program s) (numThreads s)
                = Done (c', st', n, ws)"
      by simp
    then show "n = numThreads s - 1 \<and> ws = [NotifyOne]"
      by (rule clientThread_Done)
  qed
  from c have about: "\<forall>ws \<in> set (leaving s). ws = [NotifyOne]"
    by (simp add: counted_def list_all_iff)
  from c have all: "\<forall>w \<in> set (calls s). w = NotifyOne"
    by (simp add: counted_def list_all_iff)
  then have "replicate (length (calls s)) NotifyOne = calls s"
    by (intro replicate_length_same) simp
  with n have made: "calls s = replicate (notifies schedule) NotifyOne"
    by simp
  from all have one: "\<forall>w \<in> set (calls s). \<forall>n. released w n = min 1 n"
    by (auto simp: released_def)
  have wakes: "\<forall>k s'. loopAt s = Parked
            \<and> step url_decode process httpFile maxThr (Notify k) s = Some s'
            \<longrightarrow> loopAt s' = AtWait"
  proof (intro allI impI)
    fix k s'
    assume "loopAt s = Parked \<and> step url_decode process httpFile maxThr (Notify k) s = Some s'"
    with step_Notify [OF c, of url_decode process httpFile k s'] show "loopAt s' = AtWait"
      by simp
  qed
  from bound eq below worker w about made one wakes show ?thesis
    by blast
qed

theorem admission_bound_witness:
  "runServer (\<lambda>q. q) demoProcess (\<lambda>path. []) 1 [Admit, Spawn demoClient, Count, Detach]
       (initial demoTable) =
     Some \<lparr>numThreads = 1, loopAt = AtWait, handling = [demoClient], leaving = [], calls = [],
           program = demoTable\<rparr>
   \<and> int (length [demoClient]) \<le> max 0 1
   \<and> (\<exists>c'. clientThread (\<lambda>q. q) demoProcess (\<lambda>path. []) demoClient demoTable 1 =
              Done (c', demoTable, 0, [NotifyOne]))
   \<and> runServer (\<lambda>q. q) demoProcess (\<lambda>path. []) 1
        [Admit, Spawn demoClient, Count, Detach, Admit] (initial demoTable) = None
   \<and> runServer (\<lambda>q. q) demoProcess (\<lambda>path. []) 1
        [Admit, Spawn demoClient, Count, Detach, Refuse, Park, Finish 0] (initial demoTable) =
     Some \<lparr>numThreads = 0, loopAt = Parked, handling = [], leaving = [[NotifyOne]], calls = [],
           program = demoTable\<rparr>
   \<and> step (\<lambda>q. q) demoProcess (\<lambda>path. []) 1 (Notify 0)
        \<lparr>numThreads = 0, loopAt = Parked, handling = [], leaving = [[NotifyOne]], calls = [],
         program = demoTable\<rparr> =
     Some \<lparr>numThreads = 0, loopAt = AtWait, handling = [], leaving = [], calls = [NotifyOne],
           program = demoTable\<rparr>
   \<and> runServer (\<lambda>q. q) demoProcess (\<lambda>path. []) 1
        [Admit, Spawn demoClient, Count, Detach, Refuse, Park, Finish 0, Notify 0]
        (initial demoTable) =
     Some \<lparr>numThreads = 0, loopAt = AtWait, handling = [], leaving = [], calls = [NotifyOne],
           program = demoTable\<rparr>
   \<and> released NotifyOne 1 = 1"
proof -
  let ?s1 = "\<lparr>numThreads = 1, loopAt = AtWait, handling = [demoClient], leaving = [], calls = [],
              program = demoTable\<rparr>"
  let ?s2 = "\<lparr>numThreads = 0, loopAt = Parked, handling = [], leaving = [[NotifyOne]], calls = [],
              program = demoTable\<rparr>"
  let ?s3 = "\<lparr>numThreads = 0, loopAt = AtWait, handling = [], leaving = [], calls = [NotifyOne],
              program = demoTable\<rparr>"
  have run1: "runServer (\<lambda>q. q) demoProcess (\<lambda>path. []) 1 [Admit, Spawn demoClient, Count, Detach]
                (initial demoTable) = Some ?s1"
    by (simp add: initial_def)
  have full: "runServer (\<lambda>q. q) demoProcess (\<lambda>path. []) 1
                [Admit, Spawn demoClient, Count, Detach, Admit] (initial demoTable) = None"
    by (simp add: initial_def)
  have run2: "runServer (\<lambda>q. q) demoProcess (\<lambda>path. []) 1
                [Admit, Spawn demoClient, Count, Detach, Refuse, Park, Finish 0] (initial demoTable)
              = Some ?s2"
    by (simp add: initial_def demo_request)
  have notify: "step (\<lambda>q. q) demoProcess (\<lambda>path. []) 1 (Notify 0) ?s2 = Some ?s3"
    by (simp add: deliver_def released_def)
  have run3: "runServer (\<lambda>q. q) demoProcess (\<lambda>path. []) 1
                [Admit, Spawn demoClient, Count, Detach, Refuse, Park, Finish 0, Notify 0]
                (initial demoTable) = Some ?s3"
    by (simp add: initial_def demo_request deliver_def released_def)
  from admission_bound [OF run1] have bound: "int (length [demoClient]) \<le> max 0 1"
    by simp
  have ends: "clientThread (\<lambda>q. q) demoProcess (\<lambda>path. []) demoClient demoTable 1 =
     Done (demoClient\<lparr>unread := [],
                       sent := HTTPRespHeader @ ''39'' @ [CR, LF, CR, LF]
                                 @ ''nosuch'' @ endl @ ''Error: Column not found: nosuch'' @ endl\<rparr>,
           demoTable, 1 - 1, [NotifyOne])"
    by (rule demo_request)
  have worker: "\<exists>c'. clientThread (\<lambda>q. q) demoProcess (\<lambda>path. []) demoClient demoTable 1 =
              Done (c', demoTable, 0, [NotifyOne])"
    using ends by simp
  from admission_bound [OF run2] notify have woken: "loopAt ?s3 = AtWait"
    by simp
  from admission_bound [OF run3] have "\<forall>n. released NotifyOne n = min 1 n"
    by simp
  then have one: "released NotifyOne 1 = 1"
    by simp
  from run1 bound worker full run2 notify run3 one show ?thesis
    by simp
qed

subsection \<open>update\<close>

lemma keepRow_Undefined [simp]: "keepRow row x = Undefined u \<longleftrightarrow> x = Undefined u"
  by (cases "(row, x)" rule: keepRow.cases) simp_all

lemma keepRow_Done: "keepRow row x = Done (rows', m) \<longleftrightarrow> (\<exists>rest. x = Done (rest, m) \<and> rows' = row # rest)"
  by (cases "(row, x)" rule: keepRow.cases) auto

text \<open>No read past the end of \<open>values\<close> when there are enough values.\<close>

lemma setValues_enough:
  "length colNames \<le> length vals \<Longrightarrow> setValues csv colNames vals i row \<noteq> Undefined ValuesIndex"
proof (induction csv colNames vals i row rule: setValues.induct)
  case (1 csv colNames vals i row)
  show ?case
  proof (cases "i < length colNames")
    case False
    then show ?thesis by (subst setValues.simps) simp
  next
    case True
    with "1.prems" have iv: "\<not> length vals \<le> i" by simp
    show ?thesis
    proof (cases "getColumnIndex csv (colNames ! i)")
      case (Inl e)
      with True iv show ?thesis by (subst setValues.simps) simp
    next
      case (Inr k)
      show ?thesis
      proof (cases "length row \<le> k")
        case True
        with \<open>i < length colNames\<close> iv Inr show ?thesis by (subst setValues.simps) simp
      next
        case False
        have "setValues csv colNames vals (Suc i) (row[k := vals ! i]) \<noteq> Undefined ValuesIndex"
          using "1.IH" [OF True iv Inr False "1.prems"] .
        with True iv Inr False show ?thesis by (subst setValues.simps) simp
      qed
    qed
  qed
qed

lemma updateRows_enough:
  "length colNames \<le> length vals \<Longrightarrow>
     updateRows matches csv colNames vals whereColIdx cond val rows numRows \<noteq> Undefined ValuesIndex"
proof (induction rows arbitrary: numRows)
  case Nil
  then show ?case by simp
next
  case (Cons row rows)
  show ?case
  proof (cases "rowChosen matches whereColIdx cond val row")
    case (Inl e)
    then show ?thesis by simp
  next
    case (Inr chosen)
    show ?thesis
    proof (cases chosen)
      case False
      with Inr Cons show ?thesis by simp
    next
      case True
      with Inr Cons setValues_enough [OF Cons.prems, of csv 0 row] show ?thesis
        by (cases "setValues csv colNames vals 0 row") simp_all
    qed
  qed
qed

lemma updateQuery_unfold:
  "updateQuery matches csv wakeups owned mustWait colNames vals whereColIdx cond val os =
     (case updateRows matches csv colNames vals whereColIdx cond val (csvRows csv) 0 of
        Done (rows', numRows) \<Rightarrow>
          if mustWait \<and> numRows = 0 then
            (if owned then Undefined Relock
             else (case wakeups of
                     [] \<Rightarrow> Blocked (csv\<lparr>csvRows := rows'\<rparr>, os, False)
                   | csv' # later \<Rightarrow>
                       updateQuery matches csv' later True mustWait colNames vals
                         whereColIdx cond val os))
          else Done (csv\<lparr>csvRows := rows'\<rparr>,
                     os @ decimal numRows @ '' row(s) updated.'' @ endl,
                     0 < numRows)
      | Raised e (rows', numRows) \<Rightarrow> Raised e (csv\<lparr>csvRows := rows'\<rparr>, os, False)
      | Undefined u \<Rightarrow> Undefined u
      | Blocked (rows', numRows) \<Rightarrow> Blocked (csv\<lparr>csvRows := rows'\<rparr>, os, False))"
  by (rule updateQuery.simps)

lemma updateQuery_enough:
  "length colNames \<le> length vals \<Longrightarrow>
     updateQuery matches csv wakeups owned mustWait colNames vals whereColIdx cond val os
       \<noteq> Undefined ValuesIndex"
proof (induction wakeups arbitrary: csv owned)
  case Nil
  show ?case
    using updateRows_enough [OF Nil.prems, of matches csv whereColIdx cond val "csvRows csv" 0]
    by (subst updateQuery_unfold)
       (cases "updateRows matches csv colNames vals whereColIdx cond val (csvRows csv) 0";
        auto split: prod.splits)
next
  case (Cons w later)
  show ?case
    using updateRows_enough [OF Cons.prems, of matches csv whereColIdx cond val "csvRows csv" 0]
      Cons.IH [OF Cons.prems, of w True]
    by (subst updateQuery_unfold)
       (cases "updateRows matches csv colNames vals whereColIdx cond val (csvRows csv) 0";
        auto split: prod.splits)
qed

text \<open>With too few values, a table whose columns are the names to set and whose
  single row is chosen reaches the read past the end.\<close>

lemma indexOf_nth: "i < length cs \<Longrightarrow> \<exists>k\<le>i. indexOf cs (cs ! i) = Some k"
proof (induction cs arbitrary: i)
  case Nil
  then show ?case by simp
next
  case (Cons c cs)
  show ?case
  proof (cases i)
    case 0
    then show ?thesis by simp
  next
    case (Suc j)
    with Cons.prems have "j < length cs" by simp
    from Cons.IH [OF this] obtain k where "k \<le> j" "indexOf cs (cs ! j) = Some k" by blast
    with Suc show ?thesis by auto
  qed
qed

lemma setValues_short:
  assumes "columnNames csv = colNames" and "length vals < length colNames"
  shows "i \<le> length vals \<Longrightarrow> length row = length colNames \<Longrightarrow>
           setValues csv colNames vals i row = Undefined ValuesIndex"
proof (induction "length vals - i" arbitrary: i row)
  case 0
  then have "i = length vals" by simp
  with assms(2) show ?case by (subst setValues.simps) simp
next
  case (Suc d)
  then have i: "i < length vals" by simp
  with assms(2) have ic: "i < length colNames" by simp
  from indexOf_nth [OF ic] obtain k where k: "k \<le> i" "indexOf colNames (colNames ! i) = Some k"
    by blast
  then have g: "getColumnIndex csv (colNames ! i) = Inr k"
    by (simp add: getColumnIndex_def assms(1))
  from k ic Suc.prems have kr: "\<not> length row \<le> k" by simp
  have "setValues csv colNames vals (Suc i) (row[k := vals ! i]) = Undefined ValuesIndex"
    using Suc.hyps(2) i Suc.prems by (intro Suc.hyps(1)) simp_all
  with ic i g kr show ?case by (subst setValues.simps) simp
qed

lemma updateQuery_short:
  assumes "length vals < length colNames"
  shows "updateQuery matches \<lparr>columnNames = colNames, csvRows = [replicate (length colNames) []]\<rparr>
           [] False False colNames vals (- 1) [] [] [] = Undefined ValuesIndex"
proof -
  have "setValues \<lparr>columnNames = colNames, csvRows = [replicate (length colNames) []]\<rparr>
          colNames vals 0 (replicate (length colNames) []) = Undefined ValuesIndex"
    by (rule setValues_short) (use assms in simp_all)
  then show ?thesis
    by (subst updateQuery_unfold) (simp add: rowChosen_def)
qed


text \<open>What a pass that returns has written.\<close>

lemma setValues_Done:
  "setValues csv colNames vals i row = Done row' \<Longrightarrow>
     row' = foldl (\<lambda>r (colName, v). case getColumnIndex csv colName of Inl e \<Rightarrow> r | Inr k \<Rightarrow> r[k := v])
              row (drop i (zip colNames vals))"
proof (induction csv colNames vals i row rule: setValues.induct)
  case (1 csv colNames vals i row)
  show ?case
  proof (cases "i < length colNames")
    case False
    with "1.prems" have "row' = row" by (subst (asm) setValues.simps) simp
    with False show ?thesis by simp
  next
    case True
    from "1.prems" True have iv: "\<not> length vals \<le> i"
      by (subst (asm) setValues.simps) (simp split: if_splits)
    from "1.prems" True iv obtain k where g: "getColumnIndex csv (colNames ! i) = Inr k"
      by (subst (asm) setValues.simps) (simp split: sum.splits)
    from "1.prems" True iv g have kr: "\<not> length row \<le> k"
      by (subst (asm) setValues.simps) (simp split: if_splits)
    from "1.prems" True iv g kr
    have next_: "setValues csv colNames vals (Suc i) (row[k := vals ! i]) = Done row'"
      by (subst (asm) setValues.simps) simp
    from True iv have iz: "i < length (zip colNames vals)" by simp
    then have "drop i (zip colNames vals) = zip colNames vals ! i # drop (Suc i) (zip colNames vals)"
      by (rule Cons_nth_drop_Suc [symmetric])
    with True iv have d: "drop i (zip colNames vals) = (colNames ! i, vals ! i) # drop (Suc i) (zip colNames vals)"
      by simp
    from "1.IH" [OF True iv g kr next_] show ?thesis
      by (simp add: d g)
  qed
qed

lemma setValues_pointwise:
  "setValues csv colNames vals i row = Done row' \<Longrightarrow> distinct colNames \<Longrightarrow>
     length row' = length row
     \<and> (\<forall>j. i \<le> j \<and> j < length colNames \<longrightarrow>
            (\<exists>k. getColumnIndex csv (colNames ! j) = Inr k \<and> k < length row \<and> row' ! k = vals ! j))
     \<and> (\<forall>k. (\<forall>j. i \<le> j \<and> j < length colNames \<longrightarrow> getColumnIndex csv (colNames ! j) \<noteq> Inr k)
            \<longrightarrow> row' ! k = row ! k)"
proof (induction csv colNames vals i row rule: setValues.induct)
  case (1 csv colNames vals i row)
  show ?case
  proof (cases "i < length colNames")
    case False
    with "1.prems" have "row' = row" by (subst (asm) setValues.simps) simp
    with False show ?thesis by auto
  next
    case True
    from "1.prems"(1) True have iv: "\<not> length vals \<le> i"
      by (subst (asm) setValues.simps) (simp split: if_splits)
    from "1.prems"(1) True iv obtain k where g: "getColumnIndex csv (colNames ! i) = Inr k"
      by (subst (asm) setValues.simps) (simp split: sum.splits)
    from "1.prems"(1) True iv g have kr: "\<not> length row \<le> k"
      by (subst (asm) setValues.simps) (simp split: if_splits)
    from "1.prems"(1) True iv g kr
    have next_: "setValues csv colNames vals (Suc i) (row[k := vals ! i]) = Done row'"
      by (subst (asm) setValues.simps) simp
    note IH = "1.IH" [OF True iv g kr next_ "1.prems"(2)]
    from IH have len: "length row' = length row" by simp
    have later: "\<exists>k'. getColumnIndex csv (colNames ! j) = Inr k' \<and> k' < length row \<and> row' ! k' = vals ! j"
      if "Suc i \<le> j" "j < length colNames" for j
      using IH that by auto
    have untouched: "getColumnIndex csv (colNames ! j) \<noteq> Inr k" if "Suc i \<le> j" "j < length colNames" for j
    proof
      assume "getColumnIndex csv (colNames ! j) = Inr k"
      from this g have "colNames ! j = colNames ! i" by (rule getColumnIndex_inj)
      with "1.prems"(2) that True have "j = i" by (simp add: nth_eq_iff_index_eq)
      with that show False by simp
    qed
    with IH have "row' ! k = (row[k := vals ! i]) ! k" by blast
    with kr have here: "row' ! k = vals ! i" by simp
    have at_j: "\<exists>k'. getColumnIndex csv (colNames ! j) = Inr k' \<and> k' < length row \<and> row' ! k' = vals ! j"
      if "i \<le> j" "j < length colNames" for j
    proof (cases "j = i")
      case True
      with g kr here show ?thesis by auto
    next
      case False
      with that have "Suc i \<le> j" by simp
      then show ?thesis using that(2) by (rule later)
    qed
    have frame: "row' ! k' = row ! k'"
      if "\<forall>j. i \<le> j \<and> j < length colNames \<longrightarrow> getColumnIndex csv (colNames ! j) \<noteq> Inr k'" for k'
    proof -
      from that True g have "k' \<noteq> k" by auto
      moreover from that have "\<forall>j. Suc i \<le> j \<and> j < length colNames \<longrightarrow> getColumnIndex csv (colNames ! j) \<noteq> Inr k'"
        by auto
      with IH have "row' ! k' = (row[k := vals ! i]) ! k'" by blast
      ultimately show ?thesis by simp
    qed
    from len at_j frame show ?thesis by blast
  qed
qed

lemma updateRows_Done:
  "updateRows matches csv colNames vals whereColIdx cond val rows numRows = Done (rows', m) \<Longrightarrow>
     rows' = map (\<lambda>row. if rowChosen matches whereColIdx cond val row = Inr True
                         then writeAll csv colNames vals row else row) rows
     \<and> m = numRows + length (matched matches whereColIdx cond val rows)
     \<and> (\<forall>row \<in> set (matched matches whereColIdx cond val rows).
          setValues csv colNames vals 0 row = Done (writeAll csv colNames vals row))"
proof (induction rows arbitrary: numRows rows' m)
  case Nil
  then show ?case by (simp add: matched_def)
next
  case (Cons row rows)
  show ?case
  proof (cases "rowChosen matches whereColIdx cond val row")
    case (Inl e)
    with Cons.prems show ?thesis by simp
  next
    case (Inr chosen)
    show ?thesis
    proof (cases chosen)
      case False
      with Inr Cons.prems obtain rest where
        r: "updateRows matches csv colNames vals whereColIdx cond val rows numRows = Done (rest, m)"
        and rows': "rows' = row # rest"
        by (auto simp: keepRow_Done)
      from Cons.IH [OF r] rows' False Inr show ?thesis
        by (simp add: matched_def)
    next
      case True
      with Inr Cons.prems obtain row1 where
        sv: "setValues csv colNames vals 0 row = Done row1"
        and k: "keepRow row1 (updateRows matches csv colNames vals whereColIdx cond val rows (Suc numRows))
                 = Done (rows', m)"
        by (cases "setValues csv colNames vals 0 row") simp_all
      from k obtain rest where
        r: "updateRows matches csv colNames vals whereColIdx cond val rows (Suc numRows) = Done (rest, m)"
        and rows': "rows' = row1 # rest"
        by (auto simp: keepRow_Done)
      from setValues_Done [OF sv] have row1: "row1 = writeAll csv colNames vals row"
        by (simp add: writeAll_def)
      from Cons.IH [OF r] rows' row1 sv True Inr show ?thesis
        by (simp add: matched_def)
    qed
  qed
qed

lemma updateQuery_Done:
  assumes "updateQuery matches csv wakeups owned mustWait colNames vals whereColIdx cond val os
             = Done (csv', os', notified)"
  shows "\<exists>tbl. tbl \<in> set (csv # wakeups)
           \<and> csv' = tbl\<lparr>csvRows := map (\<lambda>row. if rowChosen matches whereColIdx cond val row = Inr True
                                              then writeAll tbl colNames vals row else row) (csvRows tbl)\<rparr>
           \<and> os' = os @ decimal (length (matched matches whereColIdx cond val (csvRows tbl)))
                       @ '' row(s) updated.'' @ endl
           \<and> notified = (matched matches whereColIdx cond val (csvRows tbl) \<noteq> [])
           \<and> (\<forall>row \<in> set (matched matches whereColIdx cond val (csvRows tbl)).
                 setValues tbl colNames vals 0 row = Done (writeAll tbl colNames vals row))"
  using assms
proof (induction wakeups arbitrary: csv owned)
  case Nil
  from Nil.prems obtain rows' m where
    p: "updateRows matches csv colNames vals whereColIdx cond val (csvRows csv) 0 = Done (rows', m)"
    by (subst (asm) updateQuery_unfold)
       (cases "updateRows matches csv colNames vals whereColIdx cond val (csvRows csv) 0";
        auto split: prod.splits if_splits)
  from Nil.prems p have res: "\<not> (mustWait \<and> m = 0)"
      "csv' = csv\<lparr>csvRows := rows'\<rparr>" "os' = os @ decimal m @ '' row(s) updated.'' @ endl"
      "notified = (0 < m)"
    by (subst (asm) updateQuery_unfold; simp split: if_splits)+
  from updateRows_Done [OF p] res show ?case
    by (intro exI [of _ csv]) auto
next
  case (Cons w later)
  from Cons.prems obtain rows' m where
    p: "updateRows matches csv colNames vals whereColIdx cond val (csvRows csv) 0 = Done (rows', m)"
    by (subst (asm) updateQuery_unfold)
       (cases "updateRows matches csv colNames vals whereColIdx cond val (csvRows csv) 0";
        auto split: prod.splits if_splits)
  show ?case
  proof (cases "mustWait \<and> m = 0")
    case False
    with Cons.prems p have res:
      "csv' = csv\<lparr>csvRows := rows'\<rparr>" "os' = os @ decimal m @ '' row(s) updated.'' @ endl"
      "notified = (0 < m)"
      by (subst (asm) updateQuery_unfold; simp split: if_splits)+
    from updateRows_Done [OF p] res show ?thesis
      by (intro exI [of _ csv]) auto
  next
    case True
    with Cons.prems p have
      again: "updateQuery matches w later True mustWait colNames vals whereColIdx cond val os
                = Done (csv', os', notified)"
      by (subst (asm) updateQuery_unfold) (simp split: if_splits)
    from Cons.IH [OF again] obtain tbl where
      "tbl \<in> set (w # later)" and
      rest: "csv' = tbl\<lparr>csvRows := map (\<lambda>row. if rowChosen matches whereColIdx cond val row = Inr True
                                              then writeAll tbl colNames vals row else row) (csvRows tbl)\<rparr>
           \<and> os' = os @ decimal (length (matched matches whereColIdx cond val (csvRows tbl)))
                       @ '' row(s) updated.'' @ endl
           \<and> notified = (matched matches whereColIdx cond val (csvRows tbl) \<noteq> [])
           \<and> (\<forall>row \<in> set (matched matches whereColIdx cond val (csvRows tbl)).
                 setValues tbl colNames vals 0 row = Done (writeAll tbl colNames vals row))"
      by blast
    then have "tbl \<in> set (csv # w # later)" by simp
    with rest show ?thesis by blast
  qed
qed


text \<open>
  C10 (amended).  \<open>updateQuery\<close> reads \<open>values[i]\<close> for every \<open>i\<close> below the number of column
  names without a check.  That read stays inside \<open>values\<close> for every table, every
  where-condition and every schedule of wakeups exactly when there are at least as
  many values as column names: with enough values the read past the end is never
  reached, and with too few there is a table for which it is.  With enough values,
  an update that returns has replaced every matched row by the row after the
  writes of \<open>values[i]\<close> into the column named \<open>colNames[i]\<close>, for \<open>i\<close> in order, and
  left the other rows as they were; when the column names to set are distinct,
  the column named \<open>colNames[i]\<close> of a matched row then holds \<open>values[i]\<close>, for every
  \<open>i\<close>.
\<close>

theorem update_values_in_range:
  "((\<forall>matches csv wakeups owned mustWait whereColIdx cond val os.
        updateQuery matches csv wakeups owned mustWait colNames vals whereColIdx cond val os
          \<noteq> Undefined ValuesIndex)
      \<longleftrightarrow> length colNames \<le> length vals)
   \<and> (length colNames \<le> length vals \<longrightarrow>
        updateQuery matches csv wakeups owned mustWait colNames vals whereColIdx cond val os
          = Done (csv', os', notified) \<longrightarrow>
        (\<exists>tbl. tbl \<in> set (csv # wakeups)
           \<and> csvRows csv' =
               map (\<lambda>row. if rowChosen matches whereColIdx cond val row = Inr True
                           then writeAll tbl colNames vals row else row) (csvRows tbl)
           \<and> (distinct colNames \<longrightarrow>
                (\<forall>row \<in> set (matched matches whereColIdx cond val (csvRows tbl)).
                   \<forall>i < length colNames.
                     \<exists>k. getColumnIndex tbl (colNames ! i) = Inr k \<and> k < length row
                          \<and> writeAll tbl colNames vals row ! k = vals ! i))))"
proof (intro conjI impI)
  show "(\<forall>matches csv wakeups owned mustWait whereColIdx cond val os.
        updateQuery matches csv wakeups owned mustWait colNames vals whereColIdx cond val os
          \<noteq> Undefined ValuesIndex)
      \<longleftrightarrow> length colNames \<le> length vals"
  proof
    assume safe: "\<forall>matches csv wakeups owned mustWait whereColIdx cond val os.
        updateQuery matches csv wakeups owned mustWait colNames vals whereColIdx cond val os
          \<noteq> Undefined ValuesIndex"
    show "length colNames \<le> length vals"
    proof (rule ccontr)
      assume "\<not> length colNames \<le> length vals"
      then have "length vals < length colNames" by simp
      from updateQuery_short [OF this] safe show False by blast
    qed
  next
    assume "length colNames \<le> length vals"
    then show "\<forall>matches csv wakeups owned mustWait whereColIdx cond val os.
        updateQuery matches csv wakeups owned mustWait colNames vals whereColIdx cond val os
          \<noteq> Undefined ValuesIndex"
      by (intro allI updateQuery_enough)
  qed
next
  assume "length colNames \<le> length vals"
    and run: "updateQuery matches csv wakeups owned mustWait colNames vals whereColIdx cond val os
          = Done (csv', os', notified)"
  from updateQuery_Done [OF run] obtain tbl where
    tbl: "tbl \<in> set (csv # wakeups)" and
    csv': "csv' = tbl\<lparr>csvRows := map (\<lambda>row. if rowChosen matches whereColIdx cond val row = Inr True
                                              then writeAll tbl colNames vals row else row) (csvRows tbl)\<rparr>" and
    sv: "\<forall>row \<in> set (matched matches whereColIdx cond val (csvRows tbl)).
                 setValues tbl colNames vals 0 row = Done (writeAll tbl colNames vals row)"
    by blast
  have each: "\<exists>k. getColumnIndex tbl (colNames ! i) = Inr k \<and> k < length row
                  \<and> writeAll tbl colNames vals row ! k = vals ! i"
    if "distinct colNames" "row \<in> set (matched matches whereColIdx cond val (csvRows tbl))"
       "i < length colNames" for row i
  proof -
    from sv that(2) have "setValues tbl colNames vals 0 row = Done (writeAll tbl colNames vals row)"
      by blast
    from setValues_pointwise [OF this that(1)] that(3) show ?thesis by auto
  qed
  show "\<exists>tbl. tbl \<in> set (csv # wakeups)
           \<and> csvRows csv' =
               map (\<lambda>row. if rowChosen matches whereColIdx cond val row = Inr True
                           then writeAll tbl colNames vals row else row) (csvRows tbl)
           \<and> (distinct colNames \<longrightarrow>
                (\<forall>row \<in> set (matched matches whereColIdx cond val (csvRows tbl)).
                   \<forall>i < length colNames.
                     \<exists>k. getColumnIndex tbl (colNames ! i) = Inr k \<and> k < length row
                          \<and> writeAll tbl colNames vals row ! k = vals ! i))"
    apply (rule exI [of _ tbl])
    using tbl csv' each by auto
qed

lemma jobTable_update:
  "updateQuery demoMatches jobTable [] False False [''note'', ''status''] [''b'', ''done'']
     0 ''='' ''pending'' [] =
   Done (\<lparr>columnNames = [''status'', ''note''], csvRows = [[''done'', ''b'']]\<rparr>,
         ''1 row(s) updated.'' @ endl, True)"
  by (simp add: updateQuery.simps jobTable_def rowChosen_def at_row_def demoMatches_def
        setValues.simps getColumnIndex_def decimal.simps digit_def)

theorem update_values_in_range_witness:
  "length [''note'', ''status''] \<le> length [''b'', ''done'']
   \<and> updateQuery demoMatches jobTable [] False False [''note'', ''status''] [''b'', ''done'']
        0 ''='' ''pending'' [] =
      Done (\<lparr>columnNames = [''status'', ''note''], csvRows = [[''done'', ''b'']]\<rparr>,
            ''1 row(s) updated.'' @ endl, True)
   \<and> (\<exists>tbl. tbl \<in> set [jobTable]
         \<and> [[''done'', ''b'']] =
               map (\<lambda>row. if rowChosen demoMatches 0 ''='' ''pending'' row = Inr True
                           then writeAll tbl [''note'', ''status''] [''b'', ''done''] row else row)
                 (csvRows tbl))
   \<and> \<not> length [''note'', ''status''] \<le> length [''b'']
   \<and> (\<exists>matches csv wakeups owned mustWait whereColIdx cond val os.
         updateQuery matches csv wakeups owned mustWait [''note'', ''status''] [''b'']
           whereColIdx cond val os = Undefined ValuesIndex)"
proof -
  have len: "length [''note'', ''status''] \<le> length [''b'', ''done'']" by simp
  note inst = update_values_in_range [where colNames = "[''note'', ''status'']"
      and vals = "[''b'', ''done'']" and matches = demoMatches and csv = jobTable
      and wakeups = "[]" and owned = False and mustWait = False and whereColIdx = 0
      and cond = "''=''" and val = "''pending''" and os = "[]"
      and csv' = "\<lparr>columnNames = [''status'', ''note''], csvRows = [[''done'', ''b'']]\<rparr>"
      and os' = "''1 row(s) updated.'' @ endl" and notified = True]
  from inst len jobTable_update
  have a: "\<exists>tbl. tbl \<in> set [jobTable]
         \<and> [[''done'', ''b'']] =
               map (\<lambda>row. if rowChosen demoMatches 0 ''='' ''pending'' row = Inr True
                           then writeAll tbl [''note'', ''status''] [''b'', ''done''] row else row)
                 (csvRows tbl)"
    by auto
  have short: "\<not> length [''note'', ''status''] \<le> length [''b'']" by simp
  have iff: "(\<forall>matches csv wakeups owned mustWait whereColIdx cond val os.
        updateQuery matches csv wakeups owned mustWait [''note'', ''status''] [''b'']
          whereColIdx cond val os \<noteq> Undefined ValuesIndex)
      \<longleftrightarrow> length [''note'', ''status''] \<le> length [''b'']"
    by (rule update_values_in_range [where colNames = "[''note'', ''status'']" and vals = "[''b'']"
          and matches = demoMatches and csv = jobTable and wakeups = "[]" and owned = False
          and mustWait = False and whereColIdx = 0 and cond = "[]" and val = "[]" and os = "[]"
          and csv' = jobTable and os' = "[]" and notified = True, THEN conjunct1])
  from short have b: "\<exists>matches csv wakeups owned mustWait whereColIdx cond val os.
         updateQuery matches csv wakeups owned mustWait [''note'', ''status''] [''b'']
           whereColIdx cond val os = Undefined ValuesIndex"
    unfolding iff [symmetric] by simp
  from len jobTable_update a short b show ?thesis by blast
qed

text \<open>
  With enough values but a column name that the table does not have, the update
  throws at the lookup of that name: the first matched row has its note written
  and nothing else, the second matched row is as it was, and no count is printed.
\<close>

theorem update_values_in_range_counterexample:
  "length [''note'', ''nosuch''] \<le> length [''x'', ''y'']
   \<and> matched demoMatches 0 ''='' ''pending'' (csvRows pendingJobs) =
        [[''pending'', ''a''], [''pending'', ''b'']]
   \<and> updateQuery demoMatches pendingJobs [] False False [''note'', ''nosuch''] [''x'', ''y'']
        0 ''='' ''pending'' [] =
      Raised (LookupError ''nosuch'')
        (\<lparr>columnNames = [''status'', ''note''],
          csvRows = [[''pending'', ''x''], [''pending'', ''b'']]\<rparr>, [], False)"
  by (simp add: updateQuery.simps pendingJobs_def matched_def rowChosen_def at_row_def
        demoMatches_def setValues.simps getColumnIndex_def)

subsection \<open>A select that waits\<close>

text \<open>
  C3.  A select that has to wait a second time does not come back.  A job table
  has the single row \<open>(pending, a)\<close>, and a select waits for a row with status
  \<open>done\<close>.  A first update changes the note of the row; it has updated a row, so
  it notifies, and the select wakes up to a table that still has no row for it.  A
  second update sets the status to \<open>done\<close> and notifies.  The select does not
  return the row: its second pass ran inside the scope of the lock taken at line
  80, and on finding no row it reaches line 80 again and locks the mutex that its
  own thread owns.  Woken by the second update alone, the same select returns the
  row.
\<close>

theorem select_wait_twice:
  "updateQuery demoMatches jobTable [] False False [''note''] [''b''] 0 ''='' ''pending'' [] =
     Done (jobTable1, ''1 row(s) updated.'' @ endl, True)
   \<and> updateQuery demoMatches jobTable1 [] False False [''status''] [''done''] 0 ''='' ''pending'' [] =
     Done (jobTable2, ''1 row(s) updated.'' @ endl, True)
   \<and> selectQuery demoMatches tabbed jobTable [jobTable1, jobTable2] False True [''*''] 0 ''='' ''done'' []
       = Undefined Relock
   \<and> selectQuery demoMatches tabbed jobTable [jobTable2] False True [''*''] 0 ''='' ''done'' []
       = Done (''status'' @ [TAB] @ ''note'' @ endl @ ''done'' @ [TAB] @ ''b'' @ endl
               @ ''1 row(s) selected.'' @ endl)"
  by (simp add: updateQuery.simps selectQuery.simps jobTable_def jobTable1_def jobTable2_def
        rowChosen_def at_row_def demoMatches_def setValues.simps getColumnIndex_def
        getColumnNames_def display_def decimal.simps digit_def)

end
